theory Spec2Isabelle
  imports Main "HOL-Library.Sublist"
begin

section \<open>JavaScript strings\<close>

text \<open>
  A JavaScript string is a sequence of UTF-16 code units. \<open>length\<close>, \<open>includes\<close>,
  \<open>split\<close>, \<open>trim\<close>, \<open>===\<close> and a regular expression without the \<open>u\<close> flag all work on
  code units, so a string is modelled as the list of its code units. A code unit is a
  number below 65536; the program never does arithmetic on one, so the bound plays no
  role and the type is \<open>nat\<close>. An ASCII literal \<open>"abc"\<close> of the source is written
  \<open>u16 ''abc''\<close>.
\<close>

type_synonym jsstring = "nat list"

definition u16 :: "string \<Rightarrow> jsstring" where
  "u16 s = map of_char s"

text \<open>The glyphs of the source, as UTF-16: U+21B3, U+1F512, U+1F6C2, U+1F1FA U+1F1F8.\<close>

definition arrow :: jsstring where
  "arrow = [0x21B3]"

definition lock :: jsstring where
  "lock = [0xD83D, 0xDD12]"

definition passport :: jsstring where
  "passport = [0xD83D, 0xDEC2]"

definition us_flag :: jsstring where
  "us_flag = [0xD83C, 0xDDFA, 0xD83C, 0xDDF8]"

text \<open>
  White space as \<open>\s\<close> and \<open>trim\<close> see it (ECMAScript WhiteSpace and LineTerminator):
  TAB, LF, VT, FF, CR, SP, NBSP, U+1680, U+2000 to U+200A, U+2028, U+2029, U+202F,
  U+205F, U+3000, U+FEFF.
\<close>

definition isSpace :: "nat \<Rightarrow> bool" where
  "isSpace c = (c = 9 \<or> c = 10 \<or> c = 11 \<or> c = 12 \<or> c = 13 \<or> c = 32 \<or> c = 160 \<or>
     c = 5760 \<or> (8192 \<le> c \<and> c \<le> 8202) \<or> c = 8232 \<or> c = 8233 \<or> c = 8239 \<or>
     c = 8287 \<or> c = 12288 \<or> c = 65279)"

text \<open>\<open>\d\<close>: the ASCII digits.\<close>

definition isDigit :: "nat \<Rightarrow> bool" where
  "isDigit c = (48 \<le> c \<and> c \<le> 57)"

text \<open>\<open>s.trim()\<close>\<close>

definition trim :: "jsstring \<Rightarrow> jsstring" where
  "trim s = rev (dropWhile isSpace (rev (dropWhile isSpace s)))"

text \<open>\<open>s.startsWith(p)\<close>\<close>

fun startsWith :: "jsstring \<Rightarrow> jsstring \<Rightarrow> bool" where
  "startsWith [] s = True"
| "startsWith (p # ps) [] = False"
| "startsWith (p # ps) (c # cs) = (p = c \<and> startsWith ps cs)"

text \<open>\<open>s.includes(p)\<close>: \<open>p\<close> occurs in \<open>s\<close> at some position.\<close>

fun includes_js :: "jsstring \<Rightarrow> jsstring \<Rightarrow> bool" where
  "includes_js p [] = (p = [])"
| "includes_js p (c # cs) = (startsWith p (c # cs) \<or> includes_js p cs)"

text \<open>
  \<open>s.split(sep)\<close> for a string separator: the pieces between the occurrences of
  \<open>sep\<close>, found from left to right; an empty separator splits into code units.
\<close>

function splitAcc :: "jsstring \<Rightarrow> jsstring \<Rightarrow> jsstring \<Rightarrow> jsstring list" where
  "splitAcc sep acc s =
     (if s = [] then [rev acc]
      else if sep \<noteq> [] \<and> startsWith sep s then rev acc # splitAcc sep [] (drop (length sep) s)
      else splitAcc sep (hd s # acc) (tl s))"
  by pat_completeness auto
termination
  by (relation "measure (\<lambda>(sep, acc, s). length s)") auto

definition split_js :: "jsstring \<Rightarrow> jsstring \<Rightarrow> jsstring list" where
  "split_js sep s = (if sep = [] then map (\<lambda>c. [c]) s else splitAcc sep [] s)"

text \<open>\<open>xs.join(sep)\<close>\<close>

fun join :: "jsstring \<Rightarrow> jsstring list \<Rightarrow> jsstring" where
  "join sep [] = []"
| "join sep [x] = x"
| "join sep (x # y # ys) = x @ sep @ join sep (y # ys)"

section \<open>Regular expressions\<close>

text \<open>
  The regular expressions of the source are embedded as backtracking matchers in
  continuation-passing style, one combinator per construct. A matcher takes the
  continuation \<open>k\<close> (the rest of the pattern) and the rest of the input; it returns the
  first success in the order the backtracking engine of ECMAScript tries the
  alternatives, and \<open>None\<close> when every alternative fails. A capture group is the text
  between two positions, \<open>between a b\<close>, where \<open>b\<close> is a later rest of the input than \<open>a\<close>.
\<close>

text \<open>
  With the \<open>i\<close> flag and without the \<open>u\<close> flag two code units match when their
  canonical forms agree. Canonicalize maps a code unit to its upper case, but never a
  code unit of 128 and above to one below 128; every letter the patterns of the source
  spell out is ASCII, so only the ASCII part of the mapping decides a match.
\<close>

definition canon :: "nat \<Rightarrow> nat" where
  "canon c = (if 97 \<le> c \<and> c \<le> 122 then c - 32 else c)"

fun lit :: "jsstring \<Rightarrow> (jsstring \<Rightarrow> 'a option) \<Rightarrow> jsstring \<Rightarrow> 'a option" where
  "lit [] k s = k s"
| "lit (p # ps) k [] = None"
| "lit (p # ps) k (c # cs) = (if c = p then lit ps k cs else None)"

fun lit_i :: "jsstring \<Rightarrow> (jsstring \<Rightarrow> 'a option) \<Rightarrow> jsstring \<Rightarrow> 'a option" where
  "lit_i [] k s = k s"
| "lit_i (p # ps) k [] = None"
| "lit_i (p # ps) k (c # cs) = (if canon c = canon p then lit_i ps k cs else None)"

text \<open>\<open>C*\<close> for a character class \<open>C\<close>, greedy: the longest run first, then shorter ones.\<close>

fun star :: "(nat \<Rightarrow> bool) \<Rightarrow> (jsstring \<Rightarrow> 'a option) \<Rightarrow> jsstring \<Rightarrow> 'a option" where
  "star P k [] = k []"
| "star P k (c # cs) =
     (if P c then (case star P k cs of Some r \<Rightarrow> Some r | None \<Rightarrow> k (c # cs))
      else k (c # cs))"

text \<open>\<open>C+\<close>, greedy.\<close>

fun plus1 :: "(nat \<Rightarrow> bool) \<Rightarrow> (jsstring \<Rightarrow> 'a option) \<Rightarrow> jsstring \<Rightarrow> 'a option" where
  "plus1 P k [] = None"
| "plus1 P k (c # cs) = (if P c then star P k cs else None)"

text \<open>\<open>[\s\S]*?\<close>: any code units, as few as possible.\<close>

fun lazy :: "(jsstring \<Rightarrow> 'a option) \<Rightarrow> jsstring \<Rightarrow> 'a option" where
  "lazy k [] = k []"
| "lazy k (c # cs) = (case k (c # cs) of Some r \<Rightarrow> Some r | None \<Rightarrow> lazy k cs)"

text \<open>\<open>p?\<close> for a literal \<open>p\<close>, greedy.\<close>

definition opt :: "jsstring \<Rightarrow> (jsstring \<Rightarrow> 'a option) \<Rightarrow> jsstring \<Rightarrow> 'a option" where
  "opt p k s = (case lit p k s of Some r \<Rightarrow> Some r | None \<Rightarrow> k s)"

text \<open>The text of the input from the rest \<open>a\<close> up to the later rest \<open>b\<close>.\<close>

definition between :: "jsstring \<Rightarrow> jsstring \<Rightarrow> jsstring" where
  "between a b = take (length a - length b) a"

text \<open>
  \<open>s.match(re)\<close> and \<open>re.exec(s)\<close> without the \<open>g\<close> flag: the match at the leftmost
  position where the pattern matches. The matcher \<open>m\<close> is the pattern anchored at the
  head of its argument.
\<close>

fun search :: "(jsstring \<Rightarrow> 'a option) \<Rightarrow> jsstring \<Rightarrow> 'a option" where
  "search m [] = m []"
| "search m (c # cs) = (case m (c # cs) of Some r \<Rightarrow> Some r | None \<Rightarrow> search m cs)"

text \<open>
  The matches of a pattern with the \<open>g\<close> flag, from left to right (\<open>s.match(re)\<close>,
  \<open>s.matchAll(re)\<close>, a loop over \<open>re.exec(s)\<close>). The matcher returns what is kept of a
  match and the rest of the input after it; the next match is looked for in that rest,
  and one code unit further on after an empty match (no pattern that the source runs in
  a loop over \<open>exec\<close> has an empty match).
\<close>

function matchAll :: "(jsstring \<Rightarrow> ('a \<times> jsstring) option) \<Rightarrow> jsstring \<Rightarrow> 'a list" where
  "matchAll m s =
     (case m s of
        Some (x, rest) \<Rightarrow>
          (if length rest < length s then x # matchAll m rest
           else if s = [] then [x] else x # matchAll m (tl s))
      | None \<Rightarrow> (if s = [] then [] else matchAll m (tl s)))"
  by pat_completeness auto
termination
  by (relation "measure (\<lambda>(m, s). length s)") auto

text \<open>
  \<open>s.replace(re, r)\<close> with the \<open>g\<close> flag: every match, from left to right, gives way to
  its replacement; the matcher returns the replacement and the rest after the match.
\<close>

function replaceAll :: "(jsstring \<Rightarrow> (jsstring \<times> jsstring) option) \<Rightarrow> jsstring \<Rightarrow> jsstring" where
  "replaceAll m s =
     (case m s of
        Some (r, rest) \<Rightarrow>
          (if length rest < length s then r @ replaceAll m rest
           else if s = [] then r else r @ hd s # replaceAll m (tl s))
      | None \<Rightarrow> (if s = [] then [] else hd s # replaceAll m (tl s)))"
  by pat_completeness auto
termination
  by (relation "measure (\<lambda>(m, s). length s)") auto

text \<open>
  \<open>s.split(re)\<close>: the pieces between the matches of \<open>re\<close>. The matcher returns the rest of
  the input after a match. \<open>acc\<close> holds the current piece, reversed. No match is tried at
  the end of the string; an empty match where the current piece starts is passed over,
  and an empty match further on ends the piece. The empty string gives no piece when
  \<open>re\<close> matches it and one empty piece otherwise.
\<close>

function splitRe :: "(jsstring \<Rightarrow> jsstring option) \<Rightarrow> jsstring \<Rightarrow> jsstring \<Rightarrow> jsstring list" where
  "splitRe m acc s =
     (if s = [] then [rev acc]
      else (case m s of
              Some rest \<Rightarrow>
                (if length rest < length s then rev acc # splitRe m [] rest
                 else if acc = [] then splitRe m [hd s] (tl s)
                 else rev acc # splitRe m [hd s] (tl s))
            | None \<Rightarrow> splitRe m (hd s # acc) (tl s)))"
  by pat_completeness auto
termination
  by (relation "measure (\<lambda>(m, acc, s). length s)") auto

definition splitRegex :: "(jsstring \<Rightarrow> jsstring option) \<Rightarrow> jsstring \<Rightarrow> jsstring list" where
  "splitRegex m s =
     (if s = [] then (case m [] of Some rest \<Rightarrow> [] | None \<Rightarrow> [[]]) else splitRe m [] s)"


declare splitAcc.simps [simp del] matchAll.simps [simp del] replaceAll.simps [simp del]
  splitRe.simps [simp del]

text \<open>\<open>a|b\<close>: the first alternative, and the second when the first fails.\<close>

definition alt :: "((jsstring \<Rightarrow> 'a option) \<Rightarrow> jsstring \<Rightarrow> 'a option) \<Rightarrow>
    ((jsstring \<Rightarrow> 'a option) \<Rightarrow> jsstring \<Rightarrow> 'a option) \<Rightarrow>
    (jsstring \<Rightarrow> 'a option) \<Rightarrow> jsstring \<Rightarrow> 'a option" where
  "alt m1 m2 k s = (case m1 k s of Some r \<Rightarrow> Some r | None \<Rightarrow> m2 k s)"

text \<open>The character classes \<open>[^...]\<close> and \<open>[...]\<close> over ASCII characters.\<close>

definition noneOf :: "string \<Rightarrow> nat \<Rightarrow> bool" where
  "noneOf cs c = (c \<notin> set (u16 cs))"

definition oneOf :: "string \<Rightarrow> nat \<Rightarrow> bool" where
  "oneOf cs c = (c \<in> set (u16 cs))"

text \<open>The double quote, which a string literal of the theory cannot hold.\<close>

definition dquote :: jsstring where
  "dquote = [34]"

text \<open>\<open>s.replace(/p/g, r)\<close> for a literal pattern \<open>p\<close>.\<close>

definition replaceLit :: "jsstring \<Rightarrow> jsstring \<Rightarrow> jsstring \<Rightarrow> jsstring" where
  "replaceLit p r s = replaceAll (lit p (\<lambda>rest. Some (r, rest))) s"

section \<open>The data model\<close>

record job =
  company :: jsstring
  role :: jsstring
  location :: jsstring
  link :: jsstring
  datePosted :: jsstring
  source :: jsstring

text \<open>\<open>ALLOWED_LOCATIONS\<close> and \<open>ROLE_KEYWORDS\<close>, the same in both versions of github.js.\<close>

definition ALLOWED_LOCATIONS :: "jsstring list" where
  "ALLOWED_LOCATIONS =
     [u16 ''New York'', u16 ''San Francisco'', u16 ''Boston'', u16 ''Houston'', u16 ''Remote'']"

definition ROLE_KEYWORDS :: "jsstring list" where
  "ROLE_KEYWORDS = [u16 ''Software'', u16 ''Engineer'']"

text \<open>\<open>href.split("?utm_source")[0]\<close>\<close>

definition stripUtm :: "jsstring \<Rightarrow> jsstring" where
  "stripUtm href = hd (split_js (u16 ''?utm_source'') href)"

section \<open>github.js, the version that reads the HTML table\<close>

text \<open>
  \<open>cleanText\<close>: \<open>/<[^>]*>/g\<close> to nothing, the entities \<open>&amp; &lt; &gt; &nbsp;\<close> to
  their characters, \<open>/\s+/g\<close> to one space, then \<open>trim\<close>.
\<close>

definition tagRegex :: "jsstring \<Rightarrow> (jsstring \<times> jsstring) option" where
  "tagRegex = lit (u16 ''<'') (star (noneOf ''>'') (lit (u16 ''>'') (\<lambda>rest. Some ([], rest))))"

definition spacesRegex :: "jsstring \<Rightarrow> (jsstring \<times> jsstring) option" where
  "spacesRegex = plus1 isSpace (\<lambda>rest. Some (u16 '' '', rest))"

definition cleanText_html :: "jsstring \<Rightarrow> jsstring" where
  "cleanText_html text =
     trim (replaceAll spacesRegex
       (replaceLit (u16 ''&nbsp;'') (u16 '' '')
         (replaceLit (u16 ''&gt;'') (u16 ''>'')
           (replaceLit (u16 ''&lt;'') (u16 ''<'')
             (replaceLit (u16 ''&amp;'') (u16 ''&'')
               (replaceAll tagRegex text))))))"

text \<open>
  \<open>/<a[^>]*>([^<]+)<\/a>/i\<close>, with the continuation taking the group and the rest; it is
  also a part of the pattern for \<open><strong>\<close>.
\<close>

definition anchorRegex :: "(jsstring \<Rightarrow> jsstring \<Rightarrow> 'a option) \<Rightarrow> jsstring \<Rightarrow> 'a option" where
  "anchorRegex k =
     lit_i (u16 ''<a'') (star (noneOf ''>'') (lit_i (u16 ''>'')
       (\<lambda>a. plus1 (noneOf ''<'') (\<lambda>b. lit_i (u16 ''</a>'') (k (between a b)) b) a)))"

text \<open>\<open>/<strong[^>]*>[\s\S]*?<a[^>]*>([^<]+)<\/a>[\s\S]*?<\/strong>/i\<close>\<close>

definition strongRegex :: "jsstring \<Rightarrow> jsstring option" where
  "strongRegex =
     lit_i (u16 ''<strong'') (star (noneOf ''>'') (lit_i (u16 ''>'')
       (lazy (anchorRegex (\<lambda>t. lazy (lit_i (u16 ''</strong>'') (\<lambda>rest. Some t)))))))"

definition extractCompanyName_html :: "jsstring \<Rightarrow> jsstring" where
  "extractCompanyName_html cellContent =
     (if trim cellContent = arrow then arrow
      else (case search (anchorRegex (\<lambda>t rest. Some t)) cellContent of
              Some t \<Rightarrow> cleanText_html t
            | None \<Rightarrow>
               (case search strongRegex cellContent of
                  Some t \<Rightarrow> cleanText_html t
                | None \<Rightarrow> cleanText_html cellContent)))"

text \<open>
  \<open>/<details>[\s\S]*?<summary>[\s\S]*?<strong>(\d+\s+locations)<\/strong>[\s\S]*?<\/summary>([\s\S]*?)<\/details>/i\<close>,
  returning the second group.
\<close>

definition detailsRegex_html :: "jsstring \<Rightarrow> jsstring option" where
  "detailsRegex_html =
     lit_i (u16 ''<details>'') (lazy (lit_i (u16 ''<summary>'') (lazy (lit_i (u16 ''<strong>'')
       (plus1 isDigit (plus1 isSpace (lit_i (u16 ''locations'') (lit_i (u16 ''</strong>'')
         (lazy (lit_i (u16 ''</summary>'')
           (\<lambda>a. lazy (\<lambda>b. lit_i (u16 ''</details>'') (\<lambda>rest. Some (between a b)) b) a)))))))))))"

text \<open>\<open>/<\/br>|<br\s*\/?>|\n/i\<close>, returning the rest after the match.\<close>

definition brRegex :: "jsstring \<Rightarrow> jsstring option" where
  "brRegex =
     alt (lit_i (u16 ''</br>''))
       (alt (\<lambda>k. lit_i (u16 ''<br'') (star isSpace (opt (u16 ''/'') (lit_i (u16 ''>'') k))))
          (lit [10]))
       Some"

definition splitLocations :: "(jsstring \<Rightarrow> jsstring) \<Rightarrow> jsstring \<Rightarrow> jsstring" where
  "splitLocations clean text =
     join (u16 '', '') (filter (\<lambda>loc. length loc > 0) (map clean (splitRegex brRegex text)))"

definition extractLocation_html :: "jsstring \<Rightarrow> jsstring" where
  "extractLocation_html cellContent =
     (case search detailsRegex_html cellContent of
        Some locationList \<Rightarrow> splitLocations cleanText_html locationList
      | None \<Rightarrow> splitLocations cleanText_html cellContent)"

text \<open>\<open>/<a\s+href="([^"]+)"/gi\<close>, returning the group and the rest.\<close>

definition hrefRegex :: "jsstring \<Rightarrow> (jsstring \<times> jsstring) option" where
  "hrefRegex =
     lit_i (u16 ''<a'') (plus1 isSpace (lit_i (u16 ''href='' @ dquote)
       (\<lambda>a. plus1 (\<lambda>c. c \<noteq> 34) (\<lambda>b. lit_i dquote (\<lambda>rest. Some (between a b, rest)) b) a)))"

text \<open>
  The loop of \<open>extractApplicationLink\<close> over the matches: the first href that does not
  include \<open>simplify.jobs\<close> is returned, cut at \<open>?utm_source\<close>.
\<close>

fun directLink :: "jsstring list \<Rightarrow> jsstring option" where
  "directLink [] = None"
| "directLink (href # hrefs) =
     (if \<not> includes_js (u16 ''simplify.jobs'') href then Some (stripUtm href)
      else directLink hrefs)"

definition extractApplicationLink_html :: "jsstring \<Rightarrow> jsstring" where
  "extractApplicationLink_html cellContent =
     (case directLink (matchAll hrefRegex cellContent) of
        Some l \<Rightarrow> l
      | None \<Rightarrow>
         (case search hrefRegex cellContent of
            Some (href, rest) \<Rightarrow> href
          | None \<Rightarrow> []))"

text \<open>
  The body of the loop of \<open>parseMarkdownTable\<close> from the check of the number of cells
  on: it takes \<open>lastCompany\<close> as it stands (\<open>prev\<close>) and the cells of a row, and
  returns the new \<open>lastCompany\<close> and the record the row pushes, if any.
\<close>

definition row_html :: "jsstring \<Rightarrow> jsstring list \<Rightarrow> jsstring \<times> job option" where
  "row_html prev cells =
     (if length cells < 4 then (prev, None)
      else
        let companyCell = cells ! 0; roleCell = cells ! 1; locationCell = cells ! 2;
            applicationCell = cells ! 3;
            extracted = extractCompanyName_html companyCell;
            continuation = (extracted = arrow \<or> extracted = []);
            company' = (if continuation then prev else extracted);
            lastCompany' = (if continuation then prev else extracted);
            role' = cleanText_html roleCell;
            location' = extractLocation_html locationCell;
            link' = extractApplicationLink_html applicationCell;
            datePosted' = (if 4 < length cells \<and> cells ! 4 \<noteq> [] then cleanText_html (cells ! 4)
                           else [])
        in if company' = [] \<or> role' = [] \<or> link' = [] \<or> link' = lock then (lastCompany', None)
           else (lastCompany', Some \<lparr>company = company', role = role', location = location',
                   link = link', datePosted = datePosted', source = u16 ''GitHub''\<rparr>))"

text \<open>\<open>/<tr>\s*([\s\S]*?)\s*<\/tr>/gi\<close>, returning the whole match and the rest.\<close>

definition rowRegex :: "jsstring \<Rightarrow> (jsstring \<times> jsstring) option" where
  "rowRegex s =
     lit_i (u16 ''<tr>'') (star isSpace (lazy (star isSpace
       (lit_i (u16 ''</tr>'') (\<lambda>rest. Some (between s rest, rest)))))) s"

text \<open>\<open>/<td>([\s\S]*?)<\/td>/gi\<close>, returning the group and the rest.\<close>

definition cellRegex :: "jsstring \<Rightarrow> (jsstring \<times> jsstring) option" where
  "cellRegex =
     lit_i (u16 ''<td>'')
       (\<lambda>a. lazy (\<lambda>b. lit_i (u16 ''</td>'') (\<lambda>rest. Some (between a b, rest)) b) a)"

definition cells_html :: "jsstring \<Rightarrow> jsstring list" where
  "cells_html row = map trim (matchAll cellRegex row)"

text \<open>
  The variables of \<open>parseMarkdownTable\<close> that live across the iterations of its loop:
  \<open>lastCompany\<close> and the array \<open>internships\<close>.
\<close>

record parser =
  lastCompany :: jsstring
  internships :: "job list"

text \<open>One iteration of the loop over the rows; \<open>continue\<close> leaves with the state as it is.\<close>

definition step_html :: "parser \<Rightarrow> jsstring \<Rightarrow> parser" where
  "step_html st row =
     (if includes_js (u16 ''<th>'') row then st
      else (case row_html (lastCompany st) (cells_html row) of
              (lastCompany', None) \<Rightarrow> st\<lparr>lastCompany := lastCompany'\<rparr>
            | (lastCompany', Some j) \<Rightarrow>
                st\<lparr>lastCompany := lastCompany', internships := internships st @ [j]\<rparr>))"

definition init_html :: parser where
  "init_html = \<lparr>lastCompany = [], internships = []\<rparr>"

definition parseMarkdownTable_html :: "jsstring \<Rightarrow> job list" where
  "parseMarkdownTable_html markdown =
     internships (foldl step_html init_html (matchAll rowRegex markdown))"

section \<open>github.js, the version that reads the markdown table\<close>

text \<open>
  \<open>/\[([^\]]+)\]\(([^)]+)\)/\<close>, with the continuation taking the two groups and the rest
  (the source writes the second group without parentheses where it does not read it).
\<close>

definition mdLinkRegex :: "(jsstring \<Rightarrow> jsstring \<Rightarrow> jsstring \<Rightarrow> 'a option) \<Rightarrow> jsstring \<Rightarrow> 'a option" where
  "mdLinkRegex k =
     lit (u16 ''['')
       (\<lambda>a. plus1 (noneOf '']'')
          (\<lambda>b. lit (u16 ''](''  )
             (\<lambda>c. plus1 (noneOf '')'') (\<lambda>d. lit (u16 '')'') (k (between a b) (between c d)) d) c) b) a)"

text \<open>\<open>/\*\*([^*]+)\*\*/g\<close>, returning the group and the rest.\<close>

definition boldRegex :: "jsstring \<Rightarrow> (jsstring \<times> jsstring) option" where
  "boldRegex =
     lit (u16 ''**'')
       (\<lambda>a. plus1 (noneOf ''*'') (\<lambda>b. lit (u16 ''**'') (\<lambda>rest. Some (between a b, rest)) b) a)"

text \<open>The pattern of the two glyphs, U+1F6C2 or U+1F1FA U+1F1F8, replaced by nothing.\<close>

definition emojiRegex :: "jsstring \<Rightarrow> (jsstring \<times> jsstring) option" where
  "emojiRegex = alt (lit passport) (lit us_flag) (\<lambda>rest. Some ([], rest))"

definition cleanText_md :: "jsstring \<Rightarrow> jsstring" where
  "cleanText_md text =
     trim (replaceAll spacesRegex
       (replaceAll emojiRegex
         (replaceLit (u16 ''&apos;'') [39]
           (replaceLit (u16 ''&nbsp;'') (u16 '' '')
             (replaceLit (u16 ''&gt;'') (u16 ''>'')
               (replaceLit (u16 ''&lt;'') (u16 ''<'')
                 (replaceLit (u16 ''&amp;'') (u16 ''&'')
                   (replaceAll boldRegex
                     (replaceAll (mdLinkRegex (\<lambda>t u rest. Some (t, rest)))
                       (replaceAll tagRegex text))))))))))"

definition extractCompanyName_md :: "jsstring \<Rightarrow> jsstring" where
  "extractCompanyName_md cellContent =
     (if trim cellContent = arrow then arrow
      else (case search (anchorRegex (\<lambda>t rest. Some t)) cellContent of
              Some t \<Rightarrow> cleanText_md t
            | None \<Rightarrow>
               (case search (mdLinkRegex (\<lambda>t u rest. Some t)) cellContent of
                  Some t \<Rightarrow> cleanText_md t
                | None \<Rightarrow> cleanText_md cellContent)))"

text \<open>
  \<open>/<details>[\s\S]*?<summary>[\s\S]*?\*\*(\d+\s+locations)\*\*[\s\S]*?<\/summary>([\s\S]*?)<\/details>/i\<close>,
  returning the second group.
\<close>

definition detailsRegex_md :: "jsstring \<Rightarrow> jsstring option" where
  "detailsRegex_md =
     lit_i (u16 ''<details>'') (lazy (lit_i (u16 ''<summary>'') (lazy (lit_i (u16 ''**'')
       (plus1 isDigit (plus1 isSpace (lit_i (u16 ''locations'') (lit_i (u16 ''**'')
         (lazy (lit_i (u16 ''</summary>'')
           (\<lambda>a. lazy (\<lambda>b. lit_i (u16 ''</details>'') (\<lambda>rest. Some (between a b)) b) a)))))))))))"

definition extractLocation_md :: "jsstring \<Rightarrow> jsstring" where
  "extractLocation_md cellContent =
     (case search detailsRegex_md cellContent of
        Some locationList \<Rightarrow> splitLocations cleanText_md locationList
      | None \<Rightarrow> splitLocations cleanText_md cellContent)"

definition extractApplicationLink_md :: "jsstring \<Rightarrow> jsstring" where
  "extractApplicationLink_md cellContent =
     (if includes_js lock cellContent then lock
      else (case search hrefRegex cellContent of
              Some (href, rest) \<Rightarrow> stripUtm href
            | None \<Rightarrow>
               (case search (mdLinkRegex (\<lambda>t u rest. Some u)) cellContent of
                  Some u \<Rightarrow> stripUtm u
                | None \<Rightarrow> [])))"

text \<open>The body of the loop from the check of the number of cells on, as for the HTML table.\<close>

definition row_md :: "jsstring \<Rightarrow> jsstring list \<Rightarrow> jsstring \<times> job option" where
  "row_md prev cells =
     (if length cells < 4 then (prev, None)
      else
        let companyCell = cells ! 0; roleCell = cells ! 1; locationCell = cells ! 2;
            applicationCell = cells ! 3;
            extracted = extractCompanyName_md companyCell;
            continuation = (extracted = arrow \<or> extracted = []);
            company' = (if continuation then prev else extracted);
            lastCompany' = (if continuation then prev else extracted);
            role' = cleanText_md roleCell;
            location' = extractLocation_md locationCell;
            link' = extractApplicationLink_md applicationCell;
            datePosted' = (if 4 < length cells \<and> cells ! 4 \<noteq> [] then cleanText_md (cells ! 4)
                           else [])
        in if company' = [] \<or> role' = [] \<or> link' = [] \<or> link' = lock \<or>
              includes_js lock applicationCell
           then (lastCompany', None)
           else (lastCompany', Some \<lparr>company = company', role = role', location = location',
                   link = link', datePosted = datePosted', source = u16 ''GitHub''\<rparr>))"

text \<open>\<open>line.split("|").map((cell) => cell.trim()).filter((cell) => cell.length > 0)\<close>\<close>

definition cells_md :: "jsstring \<Rightarrow> jsstring list" where
  "cells_md line = filter (\<lambda>cell. length cell > 0) (map trim (split_js (u16 ''|'') line))"

text \<open>\<open>line.includes("| Company") && line.includes("| Role")\<close>\<close>

definition isHeader :: "jsstring \<Rightarrow> bool" where
  "isHeader line = (includes_js (u16 ''| Company'') line \<and> includes_js (u16 ''| Role'') line)"

text \<open>\<open>line.match(/^\|\s*[-:]+\s*\|/)\<close>\<close>

definition isSeparator :: "jsstring \<Rightarrow> bool" where
  "isSeparator line =
     (lit (u16 ''|'') (star isSpace (plus1 (oneOf ''-:'') (star isSpace
        (lit (u16 ''|'') (\<lambda>rest. Some ()))))) line \<noteq> None)"

text \<open>
  The variables of the loop over the lines: \<open>lastCompany\<close>, \<open>internships\<close>, \<open>inTable\<close>, and
  \<open>stopped\<close>, which \<open>break\<close> sets: the iterations after it do nothing.
\<close>

record parser_md = parser +
  inTable :: bool
  stopped :: bool

definition step_md :: "parser_md \<Rightarrow> jsstring \<Rightarrow> parser_md" where
  "step_md st line =
     (if stopped st then st
      else if isHeader line then st\<lparr>inTable := True\<rparr>
      else if isSeparator line then st
      else if inTable st \<and> \<not> startsWith (u16 ''|'') line then st\<lparr>stopped := True\<rparr>
      else if \<not> inTable st \<or> \<not> startsWith (u16 ''|'') line then st
      else (case row_md (lastCompany st) (cells_md line) of
              (lastCompany', None) \<Rightarrow> st\<lparr>lastCompany := lastCompany'\<rparr>
            | (lastCompany', Some j) \<Rightarrow>
                st\<lparr>lastCompany := lastCompany', internships := internships st @ [j]\<rparr>))"

definition init_md :: parser_md where
  "init_md = \<lparr>lastCompany = [], internships = [], inTable = False, stopped = False\<rparr>"

definition parseMarkdownTable_md :: "jsstring \<Rightarrow> job list" where
  "parseMarkdownTable_md markdown =
     internships (foldl step_md init_md (split_js [10] markdown))"

section \<open>filterInternships, the same in both versions\<close>

text \<open>
  \<open>toLowerCase\<close> follows the case mappings of Unicode, a table that is no part of the
  repository: it is the parameter \<open>lower\<close>.
\<close>

definition roleMatches :: "(jsstring \<Rightarrow> jsstring) \<Rightarrow> job \<Rightarrow> bool" where
  "roleMatches lower internship =
     list_ex (\<lambda>keyword. includes_js (lower keyword) (lower (role internship))) ROLE_KEYWORDS"

definition locationMatches :: "(jsstring \<Rightarrow> jsstring) \<Rightarrow> job \<Rightarrow> bool" where
  "locationMatches lower internship =
     list_ex (\<lambda>loc. includes_js (lower loc) (lower (location internship))) ALLOWED_LOCATIONS"

definition filterInternships :: "(jsstring \<Rightarrow> jsstring) \<Rightarrow> job list \<Rightarrow> job list" where
  "filterInternships lower js =
     filter (\<lambda>internship. roleMatches lower internship \<and> locationMatches lower internship) js"

text \<open>\<open>toLowerCase\<close> on ASCII text: the letters A to Z move to a to z.\<close>

definition asciiLower :: "jsstring \<Rightarrow> jsstring" where
  "asciiLower s = map (\<lambda>c. if 65 \<le> c \<and> c \<le> 90 then c + 32 else c) s"

section \<open>sheets.js\<close>

text \<open>
  The spreadsheet is the service behind \<open>doc.loadInfo\<close>, \<open>sheet.getRows\<close> and
  \<open>sheet.addRows\<close> of the library google-spreadsheet. The sheet has a header row,
  \<open>headers\<close>, and its rows below. A row is the list of its cells under their column
  headers, and \<open>row.get(header)\<close> is the cell under that header, \<open>undefined\<close> (here \<open>None\<close>)
  when the row has none. \<open>calls\<close> is the log of the calls made to the service. When the
  service does not answer the calls (\<open>online\<close> is false: it cannot be reached, or it
  refuses the document or the sheet) the first call throws, and \<open>addToSheet\<close> throws the
  same error again.
\<close>

type_synonym row = "(jsstring \<times> jsstring) list"

datatype call = LoadInfo | GetRows | AddRows "row list"

record sheet =
  online :: bool
  headers :: "jsstring list"
  rows :: "row list"
  calls :: "call list"

record counts =
  added :: nat
  duplicates :: nat

datatype error = ApiError

definition get :: "row \<Rightarrow> jsstring \<Rightarrow> jsstring option" where
  "get r header = map_of r header"

text \<open>A value is truthy unless it is \<open>undefined\<close> or the empty string; \<open>a || b\<close>.\<close>

definition truthy :: "jsstring option \<Rightarrow> bool" where
  "truthy v = (case v of None \<Rightarrow> False | Some s \<Rightarrow> s \<noteq> [])"

definition or_js :: "jsstring option \<Rightarrow> jsstring option \<Rightarrow> jsstring option" where
  "or_js a b = (if truthy a then a else b)"

text \<open>The value of \<open>link\<close> in the loop over the existing rows.\<close>

definition rowLink :: "row \<Rightarrow> jsstring option" where
  "rowLink r =
     or_js (or_js (or_js (or_js (get r (u16 ''Application Link'')) (get r (u16 ''Link'')))
       (get r (u16 ''link''))) (get r (u16 ''URL''))) (get r (u16 ''url''))"

text \<open>The loop that fills the set \<open>existingLinks\<close>.\<close>

definition addLink :: "jsstring set \<Rightarrow> row \<Rightarrow> jsstring set" where
  "addLink links r =
     (case rowLink r of
        None \<Rightarrow> links
      | Some l \<Rightarrow> if l \<noteq> [] then insert l links else links)"

definition existingLinks :: "row list \<Rightarrow> jsstring set" where
  "existingLinks existingRows = foldl addLink {} existingRows"

text \<open>
  The row written for a job; \<open>today\<close> is \<open>new Date().toISOString().split("T")[0]\<close>, and
  \<open>job.datePosted || ""\<close> is \<open>job.datePosted\<close>, a string.
\<close>

definition rowOf :: "jsstring \<Rightarrow> job \<Rightarrow> row" where
  "rowOf today j =
     [(u16 ''Company'', company j), (u16 ''Role'', role j), (u16 ''Location'', location j),
      (u16 ''Application Link'', link j), (u16 ''Date Posted'', datePosted j),
      (u16 ''Source'', source j), (u16 ''Date Added'', today)]"

text \<open>
  \<open>sheet.addRows\<close> with row objects: for each header of the sheet, in the order of the
  header row, the cell gets the value that the object has under that header; a key of the
  object that is no header of the sheet is dropped, and a header that the object does not
  have leaves its cell empty. The cells are handed back by \<open>getRows\<close> as they were written.
\<close>

definition written :: "jsstring list \<Rightarrow> row \<Rightarrow> row" where
  "written hs obj =
     concat (map (\<lambda>h. case map_of obj h of None \<Rightarrow> [] | Some v \<Rightarrow> [(h, v)]) hs)"

definition addToSheet :: "jsstring \<Rightarrow> job list \<Rightarrow> sheet \<Rightarrow> error + counts \<times> sheet" where
  "addToSheet today jobsArray sh =
     (if length jobsArray = 0 then Inr (\<lparr>added = 0, duplicates = 0\<rparr>, sh)
      else if \<not> online sh then Inl ApiError
      else
        let existingRows = rows sh;
            links = existingLinks existingRows;
            newJobs = filter (\<lambda>j. link j \<notin> links) jobsArray;
            duplicateCount = length jobsArray - length newJobs;
            rowsToAdd = map (rowOf today) newJobs
        in if length newJobs = 0
           then Inr (\<lparr>added = 0, duplicates = duplicateCount\<rparr>,
                     sh\<lparr>calls := calls sh @ [LoadInfo, GetRows]\<rparr>)
           else Inr (\<lparr>added = length newJobs, duplicates = duplicateCount\<rparr>,
                     sh\<lparr>rows := rows sh @ map (written (headers sh)) rowsToAdd,
                        calls := calls sh @ [LoadInfo, GetRows, AddRows rowsToAdd]\<rparr>))"

section \<open>Notions of the specification and example inputs\<close>

text \<open>The column names under which a row may hold its link, in the order they are tried.\<close>

definition aliases :: "jsstring list" where
  "aliases = [u16 ''Application Link'', u16 ''Link'', u16 ''link'', u16 ''URL'', u16 ''url'']"

text \<open>The value of the first alias that the row has at all, whatever the value.\<close>

fun firstPresent :: "row \<Rightarrow> jsstring list \<Rightarrow> jsstring option" where
  "firstPresent r [] = None"
| "firstPresent r (a # as) = (case get r a of Some v \<Rightarrow> Some v | None \<Rightarrow> firstPresent r as)"

text \<open>The value of the first alias under which the row has a non-empty value.\<close>

fun firstNonEmpty :: "row \<Rightarrow> jsstring list \<Rightarrow> jsstring option" where
  "firstNonEmpty r [] = None"
| "firstNonEmpty r (a # as) =
     (case get r a of
        Some v \<Rightarrow> if v \<noteq> [] then Some v else firstNonEmpty r as
      | None \<Rightarrow> firstNonEmpty r as)"

definition job0 :: job where
  "job0 = \<lparr>company = u16 ''Acme'', role = u16 ''Software Engineer Intern'',
     location = u16 ''Remote'', link = u16 ''https://acme.co/apply'', datePosted = u16 ''Jun 1'',
     source = u16 ''GitHub''\<rparr>"

text \<open>
  The header row with the seven columns that \<open>addToSheet\<close> writes, and a header row whose
  link column is called "Link". An empty sheet with each; the first sheet after \<open>job0\<close>
  was added once, and after it was added twice in one batch; the second sheet after
  \<open>job0\<close> was added once and twice.
\<close>

definition stdHeaders :: "jsstring list" where
  "stdHeaders = [u16 ''Company'', u16 ''Role'', u16 ''Location'', u16 ''Application Link'',
     u16 ''Date Posted'', u16 ''Source'', u16 ''Date Added'']"


definition sheet0 :: sheet where
  "sheet0 = \<lparr>online = True, headers = stdHeaders, rows = [], calls = []\<rparr>"


definition sheetTwice :: sheet where
  "sheetTwice = \<lparr>online = True, headers = stdHeaders, rows = [rowOf [] job0, rowOf [] job0],
     calls = [LoadInfo, GetRows, AddRows [rowOf [] job0, rowOf [] job0]]\<rparr>"





definition rowEmptyFirst :: row where
  "rowEmptyFirst = [(u16 ''Application Link'', []), (u16 ''Link'', u16 ''https://acme.co/apply'')]"

text \<open>What every record of the data model has: company, role and link, and a link that is not the lock.\<close>

definition accepted :: "job \<Rightarrow> bool" where
  "accepted j = (company j \<noteq> [] \<and> role j \<noteq> [] \<and> link j \<noteq> [] \<and> link j \<noteq> lock)"

text \<open>
  A continuation: the company read from the cell is the arrow or empty. The nearest
  company before a row is the last one, in the order of the document, among the
  companies read from the rows before it, that is no continuation; it is empty when
  there is none.
\<close>

definition isContinuation :: "jsstring \<Rightarrow> bool" where
  "isContinuation e = (e = arrow \<or> e = [])"

definition nearestCompany :: "jsstring list \<Rightarrow> jsstring" where
  "nearestCompany es = last ([] # filter (\<lambda>e. \<not> isContinuation e) es)"

text \<open>
  The rows of the HTML table that the parser reads: the rows without \<open><th>\<close> that have
  four cells or more; and the companies read from their first cells.
\<close>

definition tableRows_html :: "jsstring list \<Rightarrow> jsstring list list" where
  "tableRows_html rs =
     filter (\<lambda>cells. 4 \<le> length cells)
       (map cells_html (filter (\<lambda>row. \<not> includes_js (u16 ''<th>'') row) rs))"

definition companies_html :: "jsstring list \<Rightarrow> jsstring list" where
  "companies_html rs = map (\<lambda>cells. extractCompanyName_html (cells ! 0)) (tableRows_html rs)"

text \<open>
  The lines of the markdown document that are rows of the table: a header line opens
  the table, a separator line is no row, a line that starts with \<open>|\<close> is a row once the
  table is open, and the first other line after the header ends the table.
\<close>

fun tableLines :: "bool \<Rightarrow> jsstring list \<Rightarrow> jsstring list" where
  "tableLines inT [] = []"
| "tableLines inT (l # ls) =
     (if isHeader l then tableLines True ls
      else if isSeparator l then tableLines inT ls
      else if startsWith (u16 ''|'') l then (if inT then l # tableLines inT ls else tableLines inT ls)
      else if inT then [] else tableLines inT ls)"

definition tableRows_md :: "jsstring list \<Rightarrow> jsstring list list" where
  "tableRows_md ls = filter (\<lambda>cells. 4 \<le> length cells) (map cells_md (tableLines False ls))"

definition companies_md :: "jsstring list \<Rightarrow> jsstring list" where
  "companies_md ls = map (\<lambda>cells. extractCompanyName_md (cells ! 0)) (tableRows_md ls)"

text \<open>
  White space in normal form: every white space code unit is a single space that stands
  inside the text, after and before a code unit that is no white space.
\<close>

definition wsNormal :: "jsstring \<Rightarrow> bool" where
  "wsNormal t =
     (\<forall>i < length t. isSpace (t ! i) \<longrightarrow>
        t ! i = 32 \<and> 0 < i \<and> Suc i < length t \<and> \<not> isSpace (t ! Suc i))"

text \<open>No tag is left: no \<open><\<close> with a \<open>>\<close> somewhere after it.\<close>

fun noTag :: "jsstring \<Rightarrow> bool" where
  "noTag [] = True"
| "noTag (c # cs) = ((c = 60 \<longrightarrow> 62 \<notin> set cs) \<and> noTag cs)"

text \<open>Lines of a markdown table and rows of an HTML table, for the examples.\<close>

definition headerLine :: jsstring where
  "headerLine = u16 ''| Company | Role | Location | Application/Link | Date Posted |''"

definition acmeLine :: jsstring where
  "acmeLine = u16 ''| [Acme](https://acme.co/apply?utm_source=x) | Software Engineer Intern | Remote | [Apply](https://acme.co/apply?utm_source=x) | Jun 1 |''"

definition contLine :: jsstring where
  "contLine = u16 ''| '' @ arrow @ u16 '' | Data Engineer | Boston | [Apply](https://acme.co/data) | Jun 2 |''"

definition shortLine :: jsstring where
  "shortLine = u16 ''| Beta | only three |''"

definition closedLine :: jsstring where
  "closedLine = u16 ''| Gamma | Engineer | Boston | '' @ lock @ u16 '' | Jun 3 |''"

definition jobData :: job where
  "jobData = \<lparr>company = u16 ''Acme'', role = u16 ''Data Engineer'',
     location = u16 ''Boston'', link = u16 ''https://acme.co/data'', datePosted = u16 ''Jun 2'',
     source = u16 ''GitHub''\<rparr>"

definition acmeRow :: jsstring where
  "acmeRow = u16 ''<tr><td><strong><a href='' @ dquote @ u16 ''https://acme.co'' @ dquote @
     u16 ''>Acme</a></strong></td><td>Software Engineer Intern</td><td>Remote</td><td><a href='' @
     dquote @ u16 ''https://acme.co/apply?utm_source=x'' @ dquote @
     u16 ''>Apply</a></td><td>Jun 1</td></tr>''"

definition closedRow :: jsstring where
  "closedRow = u16 ''<tr><td>Gamma</td><td>Engineer</td><td>Boston</td><td>'' @ lock @
     u16 ''</td></tr>''"

definition shortRow :: jsstring where
  "shortRow = u16 ''<tr><td>Beta</td><td>only two</td></tr>''"

definition contRow :: jsstring where
  "contRow = u16 ''<tr><td>'' @ arrow @ u16 ''</td><td>Data Engineer</td><td>Boston</td><td><a href='' @
     dquote @ u16 ''https://acme.co/data'' @ dquote @ u16 ''>Apply</a></td><td>Jun 2</td></tr>''"

text \<open>Application cells: an aggregator link before a direct one, and an aggregator link alone.\<close>

definition cellTwoLinks :: jsstring where
  "cellTwoLinks = u16 ''<a href='' @ dquote @ u16 ''https://simplify.jobs/p/1'' @ dquote @
     u16 ''>S</a> <a href='' @ dquote @ u16 ''https://acme.co/apply?utm_source=x'' @ dquote @
     u16 ''>A</a>''"

definition cellAggregator :: jsstring where
  "cellAggregator = u16 ''<a href='' @ dquote @ u16 ''https://simplify.jobs/p/1?utm_source=x'' @
     dquote @ u16 ''>S</a>''"

text \<open>A record in upper and lower case, for the filter.\<close>

definition jobUpper :: job where
  "jobUpper = \<lparr>company = u16 ''Acme'', role = u16 ''SOFTWARE ENGINEER'',
     location = u16 ''remote'', link = u16 ''https://acme.co/apply'', datePosted = [],
     source = u16 ''GitHub''\<rparr>"

definition jobSales :: job where
  "jobSales = \<lparr>company = u16 ''Acme'', role = u16 ''Sales Intern'',
     location = u16 ''Remote'', link = u16 ''https://acme.co/sales'', datePosted = [],
     source = u16 ''GitHub''\<rparr>"

text \<open>The text before the first occurrence of \<open>sep\<close>, and the whole text when there is none.\<close>

fun cutBefore :: "jsstring \<Rightarrow> jsstring \<Rightarrow> jsstring" where
  "cutBefore sep [] = []"
| "cutBefore sep (c # cs) = (if startsWith sep (c # cs) then [] else c # cutBefore sep cs)"

text \<open>
  Every white space code unit is a space and is followed by no white space; a matcher
  shrinks when what it puts for a match is a subsequence of the match; the two angle
  brackets.
\<close>

fun collapsed :: "jsstring \<Rightarrow> bool" where
  "collapsed [] = True"
| "collapsed [c] = (isSpace c \<longrightarrow> c = 32)"
| "collapsed (c # d # cs) = ((isSpace c \<longrightarrow> c = 32 \<and> \<not> isSpace d) \<and> collapsed (d # cs))"

definition shrinks :: "(jsstring \<Rightarrow> (jsstring \<times> jsstring) option) \<Rightarrow> bool" where
  "shrinks m =
     (\<forall>s r rest. m s = Some (r, rest) \<longrightarrow>
        suffix rest s \<and> subseq r (take (length s - length rest) s))"

definition angle :: "nat \<Rightarrow> bool" where
  "angle c = (c = 60 \<or> c = 62)"

text \<open>
  The steps of \<open>cleanText\<close>, as the specification words them, each a pass over the text
  from left to right. A tag is a \<open><\<close> with everything up to the next \<open>>\<close>; a \<open><\<close> with no
  \<open>>\<close> after it is no tag and stays.
\<close>

function dropTags :: "jsstring \<Rightarrow> jsstring" where
  "dropTags [] = []"
| "dropTags (c # cs) =
     (if c = 60 \<and> 62 \<in> set cs then dropTags (tl (dropWhile (\<lambda>x. x \<noteq> 62) cs))
      else c # dropTags cs)"
  by pat_completeness auto
termination
proof (relation "measure length")
  fix c :: nat and cs :: jsstring
  show "(tl (dropWhile (\<lambda>x. x \<noteq> 62) cs), c # cs) \<in> measure length"
    using length_dropWhile_le [of "\<lambda>x. x \<noteq> 62" cs] by simp
qed simp_all

text \<open>
  A markdown link at the head of a text: \<open>[\<close>, a text \<open>t\<close> of one code unit or more without
  \<open>]\<close>, then \<open>](\<close>, an address \<open>u\<close> of one code unit or more without \<open>)\<close>, then \<open>)\<close>. The link
  gives its text \<open>t\<close> and the rest of the text after it. Every link gives way to its text.
\<close>

definition linkAt :: "jsstring \<Rightarrow> (jsstring \<times> jsstring) option" where
  "linkAt s =
     (let t = takeWhile (\<lambda>x. x \<noteq> 93) (drop 1 s);
          u = takeWhile (\<lambda>x. x \<noteq> 41) (drop (length t + 3) s)
      in if t \<noteq> [] \<and> u \<noteq> [] \<and> prefix (u16 ''['' @ t @ u16 ''](''  @ u @ u16 '')'') s
         then Some (t, drop (length t + length u + 4) s) else None)"

function linksToText :: "jsstring \<Rightarrow> jsstring" where
  "linksToText [] = []"
| "linksToText (c # cs) =
     (case linkAt (c # cs) of Some (t, rest) \<Rightarrow> t @ linksToText rest
      | None \<Rightarrow> c # linksToText cs)"
  by pat_completeness auto
termination
  by (relation "measure length") (auto simp: linkAt_def Let_def split: if_splits)

text \<open>
  Bold at the head of a text: \<open>**\<close>, a text \<open>t\<close> of one code unit or more without \<open>*\<close>, then
  \<open>**\<close>. Every bold text gives way to \<open>t\<close>.
\<close>

definition boldAt :: "jsstring \<Rightarrow> (jsstring \<times> jsstring) option" where
  "boldAt s =
     (let t = takeWhile (\<lambda>x. x \<noteq> 42) (drop 2 s)
      in if t \<noteq> [] \<and> prefix (u16 ''**'' @ t @ u16 ''**'') s
         then Some (t, drop (length t + 4) s) else None)"

function boldToText :: "jsstring \<Rightarrow> jsstring" where
  "boldToText [] = []"
| "boldToText (c # cs) =
     (case boldAt (c # cs) of Some (t, rest) \<Rightarrow> t @ boldToText rest
      | None \<Rightarrow> c # boldToText cs)"
  by pat_completeness auto
termination
  by (relation "measure length") (auto simp: boldAt_def Let_def split: if_splits)

text \<open>
  Every occurrence of a text \<open>p\<close> that is not empty gives way to \<open>r\<close>: the occurrences are
  taken from left to right and do not overlap, and what is put for one is not read
  again. Decoding a list of entities is this for each entity, one after the other in
  the order of the list, each on the result of the one before.
\<close>

function replaceEvery :: "jsstring \<Rightarrow> jsstring \<Rightarrow> jsstring \<Rightarrow> jsstring" where
  "replaceEvery p r [] = []"
| "replaceEvery p r (c # cs) =
     (if p \<noteq> [] \<and> prefix p (c # cs) then r @ replaceEvery p r (drop (length p) (c # cs))
      else c # replaceEvery p r cs)"
  by pat_completeness auto
termination
  by (relation "measure (\<lambda>(p, r, s). length s)") auto

definition decode :: "(jsstring \<times> jsstring) list \<Rightarrow> jsstring \<Rightarrow> jsstring" where
  "decode es s = foldl (\<lambda>t (p, r). replaceEvery p r t) s es"

definition entities_html :: "(jsstring \<times> jsstring) list" where
  "entities_html = [(u16 ''&amp;'', u16 ''&''), (u16 ''&lt;'', u16 ''<''),
     (u16 ''&gt;'', u16 ''>''), (u16 ''&nbsp;'', u16 '' '')]"

definition entities_md :: "(jsstring \<times> jsstring) list" where
  "entities_md = entities_html @ [(u16 ''&apos;'', [39])]"

text \<open>Every occurrence of one of the two glyphs is removed, in one pass.\<close>

function dropGlyphs :: "jsstring \<Rightarrow> jsstring" where
  "dropGlyphs [] = []"
| "dropGlyphs (c # cs) =
     (if prefix passport (c # cs) then dropGlyphs (drop (length passport) (c # cs))
      else if prefix us_flag (c # cs) then dropGlyphs (drop (length us_flag) (c # cs))
      else c # dropGlyphs cs)"
  by pat_completeness auto
termination
  by (relation "measure length") (auto simp: passport_def us_flag_def)

text \<open>Every run of white space gives way to one space.\<close>

function collapse :: "jsstring \<Rightarrow> jsstring" where
  "collapse [] = []"
| "collapse (c # cs) =
     (if isSpace c then 32 # collapse (dropWhile isSpace cs) else c # collapse cs)"
  by pat_completeness auto
termination
proof (relation "measure length")
  fix c :: nat and cs :: jsstring
  show "(dropWhile isSpace cs, c # cs) \<in> measure length"
    using length_dropWhile_le [of isSpace cs] by simp
qed simp_all

declare dropTags.simps [simp del] linksToText.simps [simp del] boldToText.simps [simp del]
  replaceEvery.simps [simp del] dropGlyphs.simps [simp del] collapse.simps [simp del]

text \<open>Texts for the examples of \<open>cleanText\<close>.\<close>

definition entityText :: jsstring where
  "entityText = u16 ''<b>R&amp;D</b> &lt;i&gt;&nbsp;it&apos;s '' @ passport @ us_flag"

definition mdText :: jsstring where
  "mdText = u16 ''**Data** [Engineer](https://a.co)''"

definition tagText :: jsstring where
  "tagText = u16 '' <b>Software</b>   Engineer ''"

definition twiceText :: jsstring where
  "twiceText = u16 ''R&amp;D &amp; QA''"

text \<open>Two small documents with one row each.\<close>

definition jobTiny :: job where
  "jobTiny = \<lparr>company = u16 ''Acme'', role = u16 ''Engineer'', location = u16 ''Remote'',
     link = u16 ''https://a.co'', datePosted = [], source = u16 ''GitHub''\<rparr>"

definition tinyRow :: jsstring where
  "tinyRow = u16 ''<tr><td>Acme</td><td>Engineer</td><td>Remote</td><td><a href='' @ dquote @
     u16 ''https://a.co'' @ dquote @ u16 ''>Apply</a></td></tr>''"

definition htmlDoc :: jsstring where
  "htmlDoc = u16 ''<table>'' @ tinyRow @ u16 ''</table>''"

definition tinyLine :: jsstring where
  "tinyLine = u16 ''| Acme | Engineer | Remote | [Apply](https://a.co) |''"

definition mdDoc :: jsstring where
  "mdDoc = u16 ''| Company | Role |'' @ [10] @ tinyLine"

section \<open>Properties of sheets.js\<close>

lemma foldl_addLink:
  "foldl addLink S rs = S \<union> {l. \<exists>r\<in>set rs. rowLink r = Some l \<and> l \<noteq> []}"
  by (induction rs arbitrary: S) (auto simp: addLink_def split: option.splits)

lemma existingLinks_eq:
  "existingLinks rs = {l. \<exists>r\<in>set rs. rowLink r = Some l \<and> l \<noteq> []}"
  by (simp add: existingLinks_def foldl_addLink)

lemma existingLinks_Nil: "existingLinks [] = {}"
  by (simp add: existingLinks_def)

lemma rowLink_firstNonEmpty:
  "(rowLink r = Some l \<and> l \<noteq> []) = (firstNonEmpty r aliases = Some l)"
  by (auto simp: rowLink_def aliases_def or_js_def truthy_def split: option.splits if_splits)

lemma map_of_written:
  "map_of (written hs obj) k = (if k \<in> set hs then map_of obj k else None)"
proof (induction hs)
  case Nil
  then show ?case by (simp add: written_def)
next
  case (Cons h hs)
  have w: "written (h # hs) obj =
      (case map_of obj h of None \<Rightarrow> [] | Some v \<Rightarrow> [(h, v)]) @ written hs obj"
    by (simp add: written_def)
  show ?case using Cons by (cases "map_of obj h") (auto simp: w)
qed

lemma get_written: "get (written hs obj) k = (if k \<in> set hs then get obj k else None)"
  by (simp add: get_def map_of_written)

lemma get_rowOf:
  "get (rowOf today j) (u16 ''Application Link'') = Some (link j) \<and>
   get (rowOf today j) (u16 ''Link'') = None \<and> get (rowOf today j) (u16 ''link'') = None \<and>
   get (rowOf today j) (u16 ''URL'') = None \<and> get (rowOf today j) (u16 ''url'') = None"
  by (simp add: rowOf_def get_def u16_def)

lemma get_rowOf_link: "get (rowOf today j) (u16 ''Application Link'') = Some (link j)"
  by (simp add: get_rowOf)


lemma written_stdHeaders: "written stdHeaders (rowOf today j) = rowOf today j"
  by (simp add: written_def stdHeaders_def rowOf_def u16_def)


text \<open>
  C9. With an empty list of jobs \<open>addToSheet\<close> returns \<open>{added: 0, duplicates: 0}\<close> and
  leaves the sheet as it was: no row is added and no call is made to the service (the log
  of calls is the same), whether the service can be reached or not.
\<close>

theorem addToSheet_empty:
  "addToSheet today [] sh = Inr (\<lparr>added = 0, duplicates = 0\<rparr>, sh)"
  by (simp add: addToSheet_def)

text \<open>
  C10. \<open>addToSheet\<close> does not look for duplicates inside the batch. When the service is
  reached, \<open>added\<close> is the number of jobs of the input, repetitions counted, whose link is
  not among the links of the existing rows. Each of them is handed to \<open>addRows\<close> as a row
  of its own and appended as a row of its own, in order, whatever the header row of the
  sheet, so the sheet grows by \<open>added\<close> rows. So for a link that the existing
  rows do not have, the rows handed to \<open>addRows\<close> with that link are as many as the jobs
  of the input with it, and so are the new rows of the sheet with that link when the
  sheet has the column "Application Link".
\<close>

theorem addToSheet_no_batch_dedup:
  assumes "online sh"
  shows "\<exists>sh'. addToSheet today jobs sh =
           Inr (\<lparr>added = length (filter (\<lambda>j. link j \<notin> existingLinks (rows sh)) jobs),
                 duplicates = length (filter (\<lambda>j. link j \<in> existingLinks (rows sh)) jobs)\<rparr>, sh') \<and>
         rows sh' =
           rows sh @ map (\<lambda>j. written (headers sh) (rowOf today j))
             (filter (\<lambda>j. link j \<notin> existingLinks (rows sh)) jobs) \<and>
         length (rows sh') =
           length (rows sh) + length (filter (\<lambda>j. link j \<notin> existingLinks (rows sh)) jobs) \<and>
         (filter (\<lambda>j. link j \<notin> existingLinks (rows sh)) jobs \<noteq> [] \<longrightarrow>
            calls sh' = calls sh @ [LoadInfo, GetRows,
              AddRows (map (rowOf today) (filter (\<lambda>j. link j \<notin> existingLinks (rows sh)) jobs))]) \<and>
         (\<forall>l. l \<notin> existingLinks (rows sh) \<longrightarrow>
            length (filter (\<lambda>r. get r (u16 ''Application Link'') = Some l)
                      (map (rowOf today) (filter (\<lambda>j. link j \<notin> existingLinks (rows sh)) jobs))) =
            length (filter (\<lambda>j. link j = l) jobs) \<and>
            (u16 ''Application Link'' \<in> set (headers sh) \<longrightarrow>
               length (filter (\<lambda>r. get r (u16 ''Application Link'') = Some l)
                         (drop (length (rows sh)) (rows sh'))) =
               length (filter (\<lambda>j. link j = l) jobs)))"
proof -
  let ?new = "filter (\<lambda>j. link j \<notin> existingLinks (rows sh)) jobs"
  have len: "length jobs - length ?new =
      length (filter (\<lambda>j. link j \<in> existingLinks (rows sh)) jobs)"
    using sum_length_filter_compl [of "\<lambda>j. link j \<in> existingLinks (rows sh)" jobs] by simp
  have same: "filter (\<lambda>j. link j = l) ?new = filter (\<lambda>j. link j = l) jobs"
    if "l \<notin> existingLinks (rows sh)" for l
    using that by (auto intro: filter_cong)
  have cnt: "length (filter (\<lambda>r. get r (u16 ''Application Link'') = Some l)
                (map (rowOf today) ?new)) = length (filter (\<lambda>j. link j = l) jobs)"
    if "l \<notin> existingLinks (rows sh)" for l
  proof -
    have "filter (\<lambda>r. get r (u16 ''Application Link'') = Some l) (map (rowOf today) ?new) =
        map (rowOf today) (filter (\<lambda>j. link j = l) ?new)"
      by (simp add: filter_map comp_def get_rowOf_link)
    then show ?thesis using same [OF that] by simp
  qed
  have cnt': "length (filter (\<lambda>r. get r (u16 ''Application Link'') = Some l)
                (map (\<lambda>j. written (headers sh) (rowOf today j)) ?new)) =
              length (filter (\<lambda>j. link j = l) jobs)"
    if "l \<notin> existingLinks (rows sh)" "u16 ''Application Link'' \<in> set (headers sh)" for l
  proof -
    have "filter (\<lambda>r. get r (u16 ''Application Link'') = Some l)
          (map (\<lambda>j. written (headers sh) (rowOf today j)) ?new) =
        map (\<lambda>j. written (headers sh) (rowOf today j)) (filter (\<lambda>j. link j = l) ?new)"
      using that(2) by (simp add: filter_map comp_def get_written get_rowOf_link)
    then show ?thesis using same [OF that(1)] by simp
  qed
  define sh' where "sh' =
    (if ?new = [] then (if jobs = [] then sh else sh\<lparr>calls := calls sh @ [LoadInfo, GetRows]\<rparr>)
     else sh\<lparr>rows := rows sh @ map (written (headers sh)) (map (rowOf today) ?new),
             calls := calls sh @ [LoadInfo, GetRows, AddRows (map (rowOf today) ?new)]\<rparr>)"
  have res: "addToSheet today jobs sh =
      Inr (\<lparr>added = length ?new,
            duplicates = length (filter (\<lambda>j. link j \<in> existingLinks (rows sh)) jobs)\<rparr>, sh')"
  proof (cases "jobs = []")
    case True
    then show ?thesis by (simp add: addToSheet_def sh'_def)
  next
    case False
    show ?thesis
    proof (cases "?new = []")
      case True
      have s: "sh' = sh\<lparr>calls := calls sh @ [LoadInfo, GetRows]\<rparr>"
        using False by (simp only: sh'_def True if_True if_False simp_thms)
      have n: "length ?new = 0"
        using True by simp
      have d: "length (filter (\<lambda>j. link j \<in> existingLinks (rows sh)) jobs) = length jobs"
        using len n by simp
      have "addToSheet today jobs sh =
          Inr (\<lparr>added = 0, duplicates = length jobs\<rparr>,
               sh\<lparr>calls := calls sh @ [LoadInfo, GetRows]\<rparr>)"
        using False assms True by (simp add: addToSheet_def Let_def)
      then show ?thesis unfolding s n d .
    next
      case new: False
      have s: "sh' = sh\<lparr>rows := rows sh @ map (written (headers sh)) (map (rowOf today) ?new),
             calls := calls sh @ [LoadInfo, GetRows, AddRows (map (rowOf today) ?new)]\<rparr>"
        using new by (simp only: sh'_def if_False)
      have "addToSheet today jobs sh =
          Inr (\<lparr>added = length ?new, duplicates = length jobs - length ?new\<rparr>,
               sh\<lparr>rows := rows sh @ map (written (headers sh)) (map (rowOf today) ?new),
             calls := calls sh @ [LoadInfo, GetRows, AddRows (map (rowOf today) ?new)]\<rparr>)"
        using False assms new by (simp add: addToSheet_def Let_def)
      then show ?thesis unfolding len s .
    qed
  qed
  have rows: "rows sh' = rows sh @ map (\<lambda>j. written (headers sh) (rowOf today j)) ?new"
    by (simp add: sh'_def comp_def)
  have calls: "calls sh' = calls sh @ [LoadInfo, GetRows, AddRows (map (rowOf today) ?new)]"
    if "?new \<noteq> []"
    using that by (simp add: sh'_def)
  have drop: "drop (length (rows sh)) (rows sh') =
      map (\<lambda>j. written (headers sh) (rowOf today j)) ?new"
    by (simp add: rows)
  have n: "length (rows sh') = length (rows sh) + length ?new"
    by (simp add: rows)
  from res rows n calls cnt cnt' [folded drop] show ?thesis by blast
qed

theorem addToSheet_no_batch_dedup_witness:
  "online sheet0 \<and> u16 ''Application Link'' \<in> set (headers sheet0) \<and>
   addToSheet [] [job0, job0] sheet0 = Inr (\<lparr>added = 2, duplicates = 0\<rparr>, sheetTwice) \<and>
   length (filter (\<lambda>r. get r (u16 ''Application Link'') = Some (link job0)) (rows sheetTwice)) = 2"
proof -
  note t = addToSheet_no_batch_dedup [of sheet0 "[]" "[job0, job0]"]
  have h: "online sheet0 \<and> u16 ''Application Link'' \<in> set (headers sheet0)"
    by (simp add: sheet0_def stdHeaders_def)
  have e: "addToSheet [] [job0, job0] sheet0 = Inr (\<lparr>added = 2, duplicates = 0\<rparr>, sheetTwice)"
    by (simp add: addToSheet_def Let_def sheet0_def sheetTwice_def existingLinks_Nil
        written_stdHeaders)
  have c: "length (filter (\<lambda>r. get r (u16 ''Application Link'') = Some (link job0))
      (rows sheetTwice)) = 2"
    by (simp add: sheetTwice_def get_rowOf_link)
  from t h e c show ?thesis by simp
qed

text \<open>
  C7, as the code has it. The link that a row gives to the set of existing links is the
  value of the first alias, in the order "Application Link", "Link", "link", "URL",
  "url", under which the row has a non-empty value; an alias that is there with an empty
  value is passed over, and a row with no non-empty value under any alias gives none.
\<close>

theorem existingLinks_first_nonempty_alias:
  "existingLinks rs = {l. \<exists>r\<in>set rs. firstNonEmpty r aliases = Some l}"
  by (simp add: existingLinks_eq rowLink_firstNonEmpty)

theorem existingLinks_first_nonempty_alias_witness:
  "existingLinks [rowEmptyFirst] = {u16 ''https://acme.co/apply''}"
  using existingLinks_first_nonempty_alias [of "[rowEmptyFirst]"]
  by (simp add: rowEmptyFirst_def aliases_def get_def u16_def)

text \<open>
  C7 as the claim has it fails: in a row with an empty "Application Link" and a "Link",
  the first alias present has the empty value, and the code takes the value of "Link".
\<close>

theorem rowLink_skips_empty_alias:
  "firstPresent rowEmptyFirst aliases = Some [] \<and>
   rowLink rowEmptyFirst = Some (u16 ''https://acme.co/apply'') \<and>
   rowLink rowEmptyFirst \<noteq> firstPresent rowEmptyFirst aliases \<and>
   existingLinks [rowEmptyFirst] = {u16 ''https://acme.co/apply''}"
  by (simp add: rowEmptyFirst_def aliases_def rowLink_def get_def or_js_def truthy_def
      existingLinks_def addLink_def u16_def)




section \<open>The loop of the parser, step by step\<close>

lemma row_html_short: "length cells < 4 \<Longrightarrow> row_html prev cells = (prev, None)"
  by (simp add: row_html_def)

lemma row_md_short: "length cells < 4 \<Longrightarrow> row_md prev cells = (prev, None)"
  by (simp add: row_md_def)

lemma fst_row_html:
  "fst (row_html prev cells) =
     (if 4 \<le> length cells \<and> \<not> isContinuation (extractCompanyName_html (cells ! 0))
      then extractCompanyName_html (cells ! 0) else prev)"
  by (simp add: row_html_def Let_def isContinuation_def)

lemma fst_row_md:
  "fst (row_md prev cells) =
     (if 4 \<le> length cells \<and> \<not> isContinuation (extractCompanyName_md (cells ! 0))
      then extractCompanyName_md (cells ! 0) else prev)"
  by (simp add: row_md_def Let_def isContinuation_def)

lemma snd_row_html:
  "snd (row_html prev cells) = Some j \<Longrightarrow>
     4 \<le> length cells \<and> accepted j \<and> company j = fst (row_html prev cells) \<and>
     role j = cleanText_html (cells ! 1) \<and> link j = extractApplicationLink_html (cells ! 3)"
  by (auto simp: row_html_def Let_def accepted_def split: if_splits)

lemma snd_row_md:
  "snd (row_md prev cells) = Some j \<Longrightarrow>
     4 \<le> length cells \<and> accepted j \<and> company j = fst (row_md prev cells) \<and>
     role j = cleanText_md (cells ! 1) \<and> link j = extractApplicationLink_md (cells ! 3) \<and>
     \<not> includes_js lock (cells ! 3)"
  by (auto simp: row_md_def Let_def accepted_def split: if_splits)

lemma row_html_Some: "row_html prev cells = (l, Some j) \<Longrightarrow> accepted j"
  using snd_row_html [of prev cells j] by simp

lemma row_md_Some: "row_md prev cells = (l, Some j) \<Longrightarrow> accepted j"
  using snd_row_md [of prev cells j] by simp

lemma step_html_eq:
  "step_html st row =
     (if includes_js (u16 ''<th>'') row then st
      else st\<lparr>lastCompany := fst (row_html (lastCompany st) (cells_html row)),
              internships := internships st @
                (case snd (row_html (lastCompany st) (cells_html row)) of None \<Rightarrow> [] | Some j \<Rightarrow> [j])\<rparr>)"
  by (auto simp: step_html_def split: prod.splits option.splits)

lemma step_html_short: "length (cells_html row) < 4 \<Longrightarrow> step_html st row = st"
  by (simp add: step_html_def row_html_short)

lemma step_md_row:
  "\<not> stopped st \<Longrightarrow> \<not> isHeader line \<Longrightarrow> \<not> isSeparator line \<Longrightarrow> inTable st \<Longrightarrow>
   startsWith (u16 ''|'') line \<Longrightarrow>
   step_md st line =
     st\<lparr>lastCompany := fst (row_md (lastCompany st) (cells_md line)),
        internships := internships st @
          (case snd (row_md (lastCompany st) (cells_md line)) of None \<Rightarrow> [] | Some j \<Rightarrow> [j])\<rparr>"
  by (auto simp: step_md_def split: prod.splits option.splits)

lemma step_md_stopped: "stopped st \<Longrightarrow> step_md st line = st"
  by (simp add: step_md_def)

lemma step_md_header: "\<not> stopped st \<Longrightarrow> isHeader line \<Longrightarrow> step_md st line = st\<lparr>inTable := True\<rparr>"
  by (simp add: step_md_def)

lemma step_md_separator:
  "\<not> stopped st \<Longrightarrow> \<not> isHeader line \<Longrightarrow> isSeparator line \<Longrightarrow> step_md st line = st"
  by (simp add: step_md_def)

lemma step_md_break:
  "\<not> stopped st \<Longrightarrow> \<not> isHeader line \<Longrightarrow> \<not> isSeparator line \<Longrightarrow> inTable st \<Longrightarrow>
   \<not> startsWith (u16 ''|'') line \<Longrightarrow> step_md st line = st\<lparr>stopped := True\<rparr>"
  by (simp add: step_md_def)

lemma step_md_outside:
  "\<not> stopped st \<Longrightarrow> \<not> isHeader line \<Longrightarrow> \<not> isSeparator line \<Longrightarrow> \<not> inTable st \<Longrightarrow>
   step_md st line = st"
  by (simp add: step_md_def)

lemma step_md_short:
  "startsWith (u16 ''|'') line \<Longrightarrow> length (cells_md line) < 4 \<Longrightarrow>
   step_md st line = st\<lparr>inTable := inTable st \<or> (\<not> stopped st \<and> isHeader line)\<rparr>"
  by (simp add: step_md_def row_md_short)

lemma foldl_step_md_stopped: "stopped st \<Longrightarrow> foldl step_md st ls = st"
  by (induction ls) (simp_all add: step_md_stopped)

lemma foldl_step_html_snoc: "foldl step_html st (rs @ [r]) = step_html (foldl step_html st rs) r"
  by simp

lemma internships_step_html: "prefix (internships st) (internships (step_html st row))"
  by (simp add: step_html_eq)

lemma internships_foldl_html: "prefix (internships st) (internships (foldl step_html st rs))"
proof (induction rs arbitrary: st)
  case Nil
  then show ?case by simp
next
  case (Cons r rs)
  show ?case using prefix_order.trans [OF internships_step_html Cons.IH] by simp
qed

lemma internships_step_md: "prefix (internships st) (internships (step_md st line))"
  by (auto simp: step_md_def split: prod.splits option.splits)

lemma internships_foldl_md: "prefix (internships st) (internships (foldl step_md st ls))"
proof (induction ls arbitrary: st)
  case Nil
  then show ?case by simp
next
  case (Cons l ls)
  show ?case using prefix_order.trans [OF internships_step_md Cons.IH] by simp
qed


section \<open>Evaluation of the examples\<close>

text \<open>The definitions that the simplifier unfolds to run the program on an example.\<close>

lemmas eval = u16_def isSpace_def isDigit_def trim_def canon_def between_def noneOf_def oneOf_def
  opt_def alt_def dquote_def arrow_def lock_def passport_def us_flag_def
  matchAll.simps replaceAll.simps splitRe.simps splitRegex_def splitAcc.simps split_js_def
  replaceLit_def
  stripUtm_def tagRegex_def spacesRegex_def cleanText_html_def anchorRegex_def strongRegex_def
  extractCompanyName_html_def detailsRegex_html_def brRegex_def splitLocations_def
  extractLocation_html_def hrefRegex_def extractApplicationLink_html_def
  rowRegex_def cellRegex_def cells_html_def
  mdLinkRegex_def boldRegex_def emojiRegex_def cleanText_md_def extractCompanyName_md_def
  detailsRegex_md_def extractLocation_md_def extractApplicationLink_md_def
  cells_md_def isHeader_def isSeparator_def

lemma cells_acmeLine:
  "cells_md acmeLine =
     [u16 ''[Acme](https://acme.co/apply?utm_source=x)'', u16 ''Software Engineer Intern'',
      u16 ''Remote'', u16 ''[Apply](https://acme.co/apply?utm_source=x)'', u16 ''Jun 1'']"
  by (simp add: acmeLine_def eval)

lemma cells_contLine:
  "cells_md contLine =
     [arrow, u16 ''Data Engineer'', u16 ''Boston'', u16 ''[Apply](https://acme.co/data)'',
      u16 ''Jun 2'']"
  by (simp add: contLine_def eval)

lemma cells_shortLine: "cells_md shortLine = [u16 ''Beta'', u16 ''only three'']"
  by (simp add: shortLine_def eval)

lemma cells_closedLine:
  "cells_md closedLine = [u16 ''Gamma'', u16 ''Engineer'', u16 ''Boston'', lock, u16 ''Jun 3'']"
  by (simp add: closedLine_def eval)

lemma kind_headerLine: "isHeader headerLine"
  by (simp add: headerLine_def eval)

lemma kind_acmeLine: "\<not> isHeader acmeLine \<and> \<not> isSeparator acmeLine \<and> startsWith (u16 ''|'') acmeLine"
  by (simp add: acmeLine_def eval)

lemma kind_contLine: "\<not> isHeader contLine \<and> \<not> isSeparator contLine \<and> startsWith (u16 ''|'') contLine"
  by (simp add: contLine_def eval)

lemma kind_shortLine: "\<not> isHeader shortLine \<and> \<not> isSeparator shortLine \<and> startsWith (u16 ''|'') shortLine"
  by (simp add: shortLine_def eval)

lemma company_acme_md:
  "extractCompanyName_md (u16 ''[Acme](https://acme.co/apply?utm_source=x)'') = u16 ''Acme''"
  by (simp add: eval)

lemma company_arrow_md: "extractCompanyName_md arrow = arrow"
  by (simp add: eval)

lemma role_acme_md: "cleanText_md (u16 ''Software Engineer Intern'') = u16 ''Software Engineer Intern''"
  by (simp add: eval)

lemma role_data_md: "cleanText_md (u16 ''Data Engineer'') = u16 ''Data Engineer''"
  by (simp add: eval)

lemma date_md: "cleanText_md (u16 ''Jun 1'') = u16 ''Jun 1'' \<and> cleanText_md (u16 ''Jun 2'') = u16 ''Jun 2''"
  by (simp add: eval)

lemma location_md:
  "extractLocation_md (u16 ''Remote'') = u16 ''Remote'' \<and>
   extractLocation_md (u16 ''Boston'') = u16 ''Boston''"
  by (simp add: eval)

lemma link_acme_md:
  "extractApplicationLink_md (u16 ''[Apply](https://acme.co/apply?utm_source=x)'') =
     u16 ''https://acme.co/apply''"
  by (simp add: eval)

lemma link_data_md:
  "extractApplicationLink_md (u16 ''[Apply](https://acme.co/data)'') = u16 ''https://acme.co/data''"
  by (simp add: eval)

lemma link_lock: "extractApplicationLink_md lock = lock \<and> extractApplicationLink_html lock = []"
  by (simp add: eval)

lemma includes_lock: "includes_js lock lock"
  by (simp add: lock_def)

lemma row_acme_md: "row_md prev (cells_md acmeLine) = (u16 ''Acme'', Some job0)"
  by (simp add: row_md_def cells_acmeLine company_acme_md role_acme_md date_md location_md
      link_acme_md job0_def Let_def)
    (simp add: u16_def arrow_def lock_def)

lemma row_cont_md: "row_md (u16 ''Acme'') (cells_md contLine) = (u16 ''Acme'', Some jobData)"
  by (simp add: row_md_def cells_contLine company_arrow_md role_data_md date_md location_md
      link_data_md jobData_def Let_def)
    (simp add: u16_def arrow_def lock_def)

lemma cells_acmeRow:
  "cells_html acmeRow =
     [u16 ''<strong><a href='' @ dquote @ u16 ''https://acme.co'' @ dquote @ u16 ''>Acme</a></strong>'',
      u16 ''Software Engineer Intern'', u16 ''Remote'',
      u16 ''<a href='' @ dquote @ u16 ''https://acme.co/apply?utm_source=x'' @ dquote @ u16 ''>Apply</a>'',
      u16 ''Jun 1'']"
  by (simp add: acmeRow_def eval)

lemma cells_contRow:
  "cells_html contRow =
     [arrow, u16 ''Data Engineer'', u16 ''Boston'',
      u16 ''<a href='' @ dquote @ u16 ''https://acme.co/data'' @ dquote @ u16 ''>Apply</a>'',
      u16 ''Jun 2'']"
  by (simp add: contRow_def eval)

lemma cells_shortRow: "cells_html shortRow = [u16 ''Beta'', u16 ''only two'']"
  by (simp add: shortRow_def eval)

lemma cells_closedRow:
  "cells_html closedRow = [u16 ''Gamma'', u16 ''Engineer'', u16 ''Boston'', lock]"
  by (simp add: closedRow_def eval)

lemma no_th: "\<not> includes_js (u16 ''<th>'') acmeRow \<and> \<not> includes_js (u16 ''<th>'') contRow
   \<and> \<not> includes_js (u16 ''<th>'') shortRow \<and> \<not> includes_js (u16 ''<th>'') closedRow"
  by (simp add: acmeRow_def contRow_def shortRow_def closedRow_def eval)

lemma company_acme_html:
  "extractCompanyName_html
     (u16 ''<strong><a href='' @ dquote @ u16 ''https://acme.co'' @ dquote @ u16 ''>Acme</a></strong>'') =
   u16 ''Acme''"
  by (simp add: eval)

lemma company_arrow_html: "extractCompanyName_html arrow = arrow"
  by (simp add: eval)

lemma role_html:
  "cleanText_html (u16 ''Software Engineer Intern'') = u16 ''Software Engineer Intern'' \<and>
   cleanText_html (u16 ''Data Engineer'') = u16 ''Data Engineer''"
  by (simp add: eval)

lemma date_html: "cleanText_html (u16 ''Jun 1'') = u16 ''Jun 1'' \<and> cleanText_html (u16 ''Jun 2'') = u16 ''Jun 2''"
  by (simp add: eval)

lemma location_html:
  "extractLocation_html (u16 ''Remote'') = u16 ''Remote'' \<and>
   extractLocation_html (u16 ''Boston'') = u16 ''Boston''"
  by (simp add: eval)

lemma link_acme_html:
  "extractApplicationLink_html
     (u16 ''<a href='' @ dquote @ u16 ''https://acme.co/apply?utm_source=x'' @ dquote @ u16 ''>Apply</a>'') =
     u16 ''https://acme.co/apply''"
  by (simp add: eval)

lemma link_data_html:
  "extractApplicationLink_html
     (u16 ''<a href='' @ dquote @ u16 ''https://acme.co/data'' @ dquote @ u16 ''>Apply</a>'') =
     u16 ''https://acme.co/data''"
  by (simp add: eval)

lemma row_acme_html: "row_html prev (cells_html acmeRow) = (u16 ''Acme'', Some job0)"
  by (simp add: row_html_def cells_acmeRow company_acme_html role_html date_html location_html
      link_acme_html job0_def Let_def)
    (simp add: u16_def arrow_def lock_def)

lemma row_cont_html: "row_html (u16 ''Acme'') (cells_html contRow) = (u16 ''Acme'', Some jobData)"
  by (simp add: row_html_def cells_contRow company_arrow_html role_html date_html location_html
      link_data_html jobData_def Let_def)
    (simp add: u16_def arrow_def lock_def)

lemma run_html: "foldl step_html init_html [acmeRow] =
    \<lparr>lastCompany = u16 ''Acme'', internships = [job0]\<rparr>"
  by (simp add: step_html_eq no_th row_acme_html init_html_def)

lemma run_md: "foldl step_md init_md [u16 ''# Internships'', headerLine, acmeLine] =
    \<lparr>lastCompany = u16 ''Acme'', internships = [job0], inTable = True, stopped = False\<rparr>"
proof -
  have 1: "step_md init_md (u16 ''# Internships'') = init_md"
    by (rule step_md_outside) (simp_all add: init_md_def eval)
  have 2: "step_md init_md headerLine = init_md\<lparr>inTable := True\<rparr>"
    by (rule step_md_header) (simp_all add: init_md_def kind_headerLine)
  have 3: "step_md (init_md\<lparr>inTable := True\<rparr>) acmeLine =
      \<lparr>lastCompany = u16 ''Acme'', internships = [job0], inTable = True, stopped = False\<rparr>"
    using kind_acmeLine by (simp add: step_md_row row_acme_md init_md_def)
  show ?thesis by (simp add: 1 2 3)
qed

lemma lines_mdDoc: "split_js [10] mdDoc = [u16 ''| Company | Role |'', tinyLine]"
  by (simp add: mdDoc_def tinyLine_def eval)

lemma rows_htmlDoc: "matchAll rowRegex htmlDoc = [tinyRow]"
  by (simp add: htmlDoc_def tinyRow_def eval)

lemma cells_tinyRow:
  "cells_html tinyRow =
     [u16 ''Acme'', u16 ''Engineer'', u16 ''Remote'',
      u16 ''<a href='' @ dquote @ u16 ''https://a.co'' @ dquote @ u16 ''>Apply</a>'']"
  by (simp add: tinyRow_def eval)

lemma cells_tinyLine:
  "cells_md tinyLine = [u16 ''Acme'', u16 ''Engineer'', u16 ''Remote'', u16 ''[Apply](https://a.co)'']"
  by (simp add: tinyLine_def eval)

lemma fields_tiny_html:
  "extractCompanyName_html (u16 ''Acme'') = u16 ''Acme'' \<and>
   cleanText_html (u16 ''Engineer'') = u16 ''Engineer'' \<and>
   extractApplicationLink_html
     (u16 ''<a href='' @ dquote @ u16 ''https://a.co'' @ dquote @ u16 ''>Apply</a>'') = u16 ''https://a.co''"
  by (simp add: eval)

lemma fields_tiny_md:
  "extractCompanyName_md (u16 ''Acme'') = u16 ''Acme'' \<and>
   cleanText_md (u16 ''Engineer'') = u16 ''Engineer'' \<and>
   extractApplicationLink_md (u16 ''[Apply](https://a.co)'') = u16 ''https://a.co''"
  by (simp add: eval)

lemma kind_tiny:
  "\<not> includes_js (u16 ''<th>'') tinyRow \<and> isHeader (u16 ''| Company | Role |'') \<and>
   \<not> isHeader tinyLine \<and> \<not> isSeparator tinyLine \<and> startsWith (u16 ''|'') tinyLine"
  by (simp add: tinyRow_def tinyLine_def eval)

lemma row_tiny_html: "row_html prev (cells_html tinyRow) = (u16 ''Acme'', Some jobTiny)"
  by (simp add: row_html_def cells_tinyRow fields_tiny_html location_html jobTiny_def Let_def)
    (simp add: u16_def arrow_def lock_def)

lemma row_tiny_md: "row_md prev (cells_md tinyLine) = (u16 ''Acme'', Some jobTiny)"
  by (simp add: row_md_def cells_tinyLine fields_tiny_md location_md jobTiny_def Let_def)
    (simp add: eval)

lemma parse_htmlDoc: "parseMarkdownTable_html htmlDoc = [jobTiny]"
  by (simp add: parseMarkdownTable_html_def rows_htmlDoc step_html_eq kind_tiny row_tiny_html
      init_html_def)

lemma parse_mdDoc: "parseMarkdownTable_md mdDoc = [jobTiny]"
proof -
  have 2: "step_md init_md (u16 ''| Company | Role |'') = init_md\<lparr>inTable := True\<rparr>"
    by (rule step_md_header) (simp_all add: init_md_def kind_tiny)
  have 3: "step_md (init_md\<lparr>inTable := True\<rparr>) tinyLine =
      \<lparr>lastCompany = u16 ''Acme'', internships = [jobTiny], inTable = True, stopped = False\<rparr>"
    using kind_tiny by (simp add: step_md_row row_tiny_md init_md_def)
  show ?thesis by (simp add: parseMarkdownTable_md_def lines_mdDoc 2 3)
qed

lemma asciiLower_examples:
  "asciiLower (u16 ''SOFTWARE ENGINEER'') = u16 ''software engineer'' \<and>
   asciiLower (u16 ''remote'') = u16 ''remote'' \<and>
   asciiLower (u16 ''Software'') = u16 ''software'' \<and>
   asciiLower (u16 ''Remote'') = u16 ''remote''"
  by (simp add: asciiLower_def u16_def)

lemma ascii_examples:
  "(\<forall>c\<in>set (u16 ''SOFTWARE ENGINEER''). c < 128) \<and> (\<forall>c\<in>set (u16 ''remote''). c < 128) \<and>
   (\<forall>c\<in>set (u16 ''Software''). c < 128) \<and> (\<forall>c\<in>set (u16 ''Remote''). c < 128)"
  by (simp add: u16_def)

lemma upper_passes:
  "includes_js (u16 ''software'') (u16 ''software engineer'') \<and>
   includes_js (u16 ''remote'') (u16 ''remote'')"
  by (simp add: u16_def)

lemma filter_examples:
  "filterInternships asciiLower [jobUpper, jobSales] = [jobUpper] \<and>
   filterInternships asciiLower [jobUpper] = [jobUpper]"
  by (simp add: filterInternships_def roleMatches_def locationMatches_def ROLE_KEYWORDS_def
      ALLOWED_LOCATIONS_def jobUpper_def jobSales_def asciiLower_def u16_def)

lemma links_cellTwoLinks:
  "extractApplicationLink_html cellTwoLinks = u16 ''https://acme.co/apply'' \<and>
   extractApplicationLink_md cellTwoLinks = u16 ''https://simplify.jobs/p/1''"
  by (simp add: cellTwoLinks_def eval)

lemma links_cellAggregator:
  "extractApplicationLink_html cellAggregator = u16 ''https://simplify.jobs/p/1?utm_source=x'' \<and>
   extractApplicationLink_md cellAggregator = u16 ''https://simplify.jobs/p/1''"
  by (simp add: cellAggregator_def eval)

lemma hrefs_cellTwoLinks:
  "matchAll hrefRegex cellTwoLinks =
     [u16 ''https://simplify.jobs/p/1'', u16 ''https://acme.co/apply?utm_source=x'']"
  by (simp add: cellTwoLinks_def eval)

lemma cleanText_examples:
  "cleanText_html (u16 ''A&amp;B'') = u16 ''A&B'' \<and>
   cleanText_md (u16 ''A&amp;B'') = u16 ''A&B'' \<and>
   cleanText_html (u16 ''a   b'' @ [10] @ u16 '' c'') = u16 ''a b c'' \<and>
   cleanText_md (u16 ''a   b'' @ [10] @ u16 '' c'') = u16 ''a b c''"
  by (simp add: eval)

lemma cleanText_entityText:
  "cleanText_md entityText = u16 ''R&D <i> it'' @ [39] @ u16 ''s'' \<and>
   cleanText_html entityText = u16 ''R&D <i> it&apos;s '' @ passport @ us_flag"
  by (simp add: entityText_def eval)

lemma cleanText_mdText:
  "cleanText_md mdText = u16 ''Data Engineer'' \<and> cleanText_html mdText = mdText"
  by (simp add: mdText_def eval)

lemma cleanText_tagText:
  "38 \<notin> set tagText \<and> cleanText_html tagText = u16 ''Software Engineer'' \<and>
   cleanText_md tagText = u16 ''Software Engineer''"
  by (simp add: tagText_def eval)

lemma cleanText_twiceText:
  "cleanText_html twiceText = u16 ''R&D & QA'' \<and> cleanText_md twiceText = u16 ''R&D & QA''"
  by (simp add: twiceText_def eval)


section \<open>Rows with fewer than four cells\<close>

text \<open>
  C8. A row of the HTML table with fewer than four cells leaves the state of the loop
  as it is, so the records are those of the document without the row. A line of the
  markdown table (it starts with \<open>|\<close>) with fewer than four cells changes nothing but
  \<open>inTable\<close>, which a header line sets; no record is pushed, the loop is not left, and
  when the line is no header the run of the loop is that over the lines without it.
\<close>

theorem short_rows_skipped:
  "(length (cells_html row) < 4 \<longrightarrow>
      step_html st row = st \<and>
      foldl step_html st (pre @ row # post) = foldl step_html st (pre @ post)) \<and>
   (startsWith (u16 ''|'') line \<and> length (cells_md line) < 4 \<longrightarrow>
      step_md sm line = sm\<lparr>inTable := inTable sm \<or> (\<not> stopped sm \<and> isHeader line)\<rparr> \<and>
      (\<not> isHeader line \<longrightarrow>
         foldl step_md sm (pre' @ line # post') = foldl step_md sm (pre' @ post')))"
  by (simp add: step_html_short step_md_short)

text \<open>C8 on a row and a line with two cells.\<close>

theorem short_rows_skipped_witness:
  "length (cells_html shortRow) < 4 \<and> step_html init_html shortRow = init_html \<and>
   foldl step_html init_html [tinyRow, shortRow] = foldl step_html init_html [tinyRow] \<and>
   startsWith (u16 ''|'') shortLine \<and> length (cells_md shortLine) < 4 \<and> \<not> isHeader shortLine \<and>
   step_md (init_md\<lparr>inTable := True\<rparr>) shortLine = init_md\<lparr>inTable := True\<rparr> \<and>
   foldl step_md (init_md\<lparr>inTable := True\<rparr>) [shortLine, tinyLine] =
     foldl step_md (init_md\<lparr>inTable := True\<rparr>) [tinyLine]"
proof -
  note t = short_rows_skipped [of shortRow init_html "[tinyRow]" "[]" shortLine
      "init_md\<lparr>inTable := True\<rparr>" "[]" "[tinyLine]"]
  have e: "length (cells_html shortRow) < 4 \<and> startsWith (u16 ''|'') shortLine \<and>
      length (cells_md shortLine) < 4 \<and> \<not> isHeader shortLine"
    using kind_shortLine by (simp add: cells_shortRow cells_shortLine)
  from t e show ?thesis by (simp add: init_md_def)
qed


section \<open>The records that are pushed\<close>

lemma step_html_accepted:
  "\<forall>j\<in>set (internships st). accepted j \<Longrightarrow> \<forall>j\<in>set (internships (step_html st row)). accepted j"
  by (auto simp: step_html_def dest: row_html_Some split: option.splits prod.splits)

lemma foldl_step_html_accepted:
  "\<forall>j\<in>set (internships st). accepted j \<Longrightarrow>
   \<forall>j\<in>set (internships (foldl step_html st rs)). accepted j"
proof (induction rs arbitrary: st)
  case Nil
  then show ?case by simp
next
  case (Cons r rs)
  show ?case using Cons.IH [OF step_html_accepted [OF Cons.prems]] by simp
qed

lemma step_md_accepted:
  "\<forall>j\<in>set (internships st). accepted j \<Longrightarrow> \<forall>j\<in>set (internships (step_md st line)). accepted j"
  by (auto simp: step_md_def dest: row_md_Some split: option.splits prod.splits)

lemma foldl_step_md_accepted:
  "\<forall>j\<in>set (internships st). accepted j \<Longrightarrow>
   \<forall>j\<in>set (internships (foldl step_md st ls)). accepted j"
proof (induction ls arbitrary: st)
  case Nil
  then show ?case by simp
next
  case (Cons l ls)
  show ?case using Cons.IH [OF step_md_accepted [OF Cons.prems]] by simp
qed

lemma row_html_lock: "cells ! 3 = lock \<Longrightarrow> snd (row_html prev cells) = None"
  by (simp add: row_html_def Let_def link_lock)

lemma row_md_lock: "cells ! 3 = lock \<Longrightarrow> snd (row_md prev cells) = None"
  by (simp add: row_md_def Let_def includes_lock)

text \<open>
  C1. Every record that \<open>parseMarkdownTable\<close> returns, in the version for the HTML table
  and in the one for the markdown table, has a non-empty company, a non-empty role and
  a non-empty link that is not the lock. The record that a row pushes has the cleaned
  role cell as its role and the link extracted from the application cell as its link.
  A row whose application cell is the lock pushes no record.
\<close>

theorem records_accepted:
  "(\<forall>j\<in>set (parseMarkdownTable_html html). accepted j) \<and>
   (\<forall>j\<in>set (parseMarkdownTable_md md). accepted j) \<and>
   (\<forall>j. snd (row_html prev cells) = Some j \<longrightarrow>
      accepted j \<and> role j = cleanText_html (cells ! 1) \<and>
      link j = extractApplicationLink_html (cells ! 3)) \<and>
   (\<forall>j. snd (row_md prev cells) = Some j \<longrightarrow>
      accepted j \<and> role j = cleanText_md (cells ! 1) \<and>
      link j = extractApplicationLink_md (cells ! 3)) \<and>
   (4 \<le> length (cells_html row) \<and> cells_html row ! 3 = lock \<longrightarrow>
      internships (step_html st row) = internships st) \<and>
   (4 \<le> length (cells_md line) \<and> cells_md line ! 3 = lock \<longrightarrow>
      internships (step_md sm line) = internships sm)"
proof -
  have 1: "\<forall>j\<in>set (parseMarkdownTable_html html). accepted j"
    unfolding parseMarkdownTable_html_def
    by (rule foldl_step_html_accepted) (simp add: init_html_def)
  have 2: "\<forall>j\<in>set (parseMarkdownTable_md md). accepted j"
    unfolding parseMarkdownTable_md_def
    by (rule foldl_step_md_accepted) (simp add: init_md_def)
  have 3: "\<forall>j. snd (row_html prev cells) = Some j \<longrightarrow>
      accepted j \<and> role j = cleanText_html (cells ! 1) \<and>
      link j = extractApplicationLink_html (cells ! 3)"
    using snd_row_html by blast
  have 4: "\<forall>j. snd (row_md prev cells) = Some j \<longrightarrow>
      accepted j \<and> role j = cleanText_md (cells ! 1) \<and>
      link j = extractApplicationLink_md (cells ! 3)"
    using snd_row_md by blast
  have 5: "internships (step_html st row) = internships st" if "cells_html row ! 3 = lock"
    using row_html_lock [OF that] by (simp add: step_html_eq)
  have 6: "internships (step_md sm line) = internships sm" if "cells_md line ! 3 = lock"
    using row_md_lock [OF that, of "lastCompany sm"]
    by (auto simp: step_md_def split: prod.splits option.splits)
  from 1 2 3 4 5 6 show ?thesis by blast
qed

text \<open>C1 on the example documents, the example row of the specification and the closed rows.\<close>

theorem records_accepted_witness:
  "jobTiny \<in> set (parseMarkdownTable_html htmlDoc) \<and> jobTiny \<in> set (parseMarkdownTable_md mdDoc) \<and>
   accepted jobTiny \<and>
   snd (row_md [] (cells_md acmeLine)) = Some job0 \<and> accepted job0 \<and>
   4 \<le> length (cells_html closedRow) \<and> cells_html closedRow ! 3 = lock \<and>
   internships (step_html init_html closedRow) = [] \<and>
   4 \<le> length (cells_md closedLine) \<and> cells_md closedLine ! 3 = lock \<and>
   internships (step_md (init_md\<lparr>inTable := True\<rparr>) closedLine) = []"
proof -
  note t = records_accepted [of htmlDoc mdDoc "[]" "cells_md acmeLine" closedRow init_html
      closedLine "init_md\<lparr>inTable := True\<rparr>"]
  have e: "jobTiny \<in> set (parseMarkdownTable_html htmlDoc) \<and>
      jobTiny \<in> set (parseMarkdownTable_md mdDoc) \<and>
      snd (row_md [] (cells_md acmeLine)) = Some job0 \<and>
      4 \<le> length (cells_html closedRow) \<and> cells_html closedRow ! 3 = lock \<and>
      4 \<le> length (cells_md closedLine) \<and> cells_md closedLine ! 3 = lock \<and>
      internships init_html = [] \<and> internships (init_md\<lparr>inTable := True\<rparr>) = []"
    by (simp add: parse_htmlDoc parse_mdDoc row_acme_md cells_closedRow cells_closedLine
        init_html_def init_md_def)
  from t e show ?thesis by auto
qed


section \<open>Continuation rows\<close>

lemma nearestCompany_snoc:
  "nearestCompany (es @ [e]) = (if isContinuation e then nearestCompany es else e)"
  by (simp add: nearestCompany_def)

lemma lastCompany_html:
  "lastCompany (foldl step_html init_html rs) = nearestCompany (companies_html rs)"
proof (induction rs rule: rev_induct)
  case Nil
  then show ?case
    by (simp add: init_html_def nearestCompany_def companies_html_def tableRows_html_def)
next
  case (snoc r rs)
  then show ?case
    by (simp add: step_html_eq fst_row_html companies_html_def tableRows_html_def
        nearestCompany_snoc)
qed

lemma lastCompany_md_gen:
  "lastCompany (foldl step_md st ls) =
     (if stopped st then lastCompany st
      else last (lastCompany st # filter (\<lambda>e. \<not> isContinuation e)
             (map (\<lambda>cells. extractCompanyName_md (cells ! 0))
                (filter (\<lambda>cells. 4 \<le> length cells) (map cells_md (tableLines (inTable st) ls))))))"
proof (induction ls arbitrary: st)
  case Nil
  then show ?case by simp
next
  case (Cons l ls)
  show ?case
  proof (cases "stopped st")
    case True
    then show ?thesis by (simp add: step_md_stopped foldl_step_md_stopped)
  next
    case False
    consider (hd) "isHeader l" | (sep) "\<not> isHeader l" "isSeparator l"
      | (brk) "\<not> isHeader l" "\<not> isSeparator l" "inTable st" "\<not> startsWith (u16 ''|'') l"
      | (out) "\<not> isHeader l" "\<not> isSeparator l" "\<not> inTable st"
      | (row) "\<not> isHeader l" "\<not> isSeparator l" "inTable st" "startsWith (u16 ''|'') l"
      by blast
    then show ?thesis
    proof cases
      case hd
      then show ?thesis using False by (simp add: Cons.IH step_md_header)
    next
      case sep
      then show ?thesis using False by (simp add: Cons.IH step_md_separator)
    next
      case brk
      then show ?thesis using False by (simp add: step_md_break foldl_step_md_stopped)
    next
      case out
      then show ?thesis using False by (simp add: Cons.IH step_md_outside)
    next
      case row
      then show ?thesis using False
        by (simp add: Cons.IH step_md_row fst_row_md)
    qed
  qed
qed

lemma lastCompany_md:
  "lastCompany (foldl step_md init_md ls) = nearestCompany (companies_md ls)"
  by (simp add: lastCompany_md_gen init_md_def nearestCompany_def companies_md_def tableRows_md_def)

text \<open>
  C3. Take a row that the parser reads (in the HTML table a row without \<open><th>\<close> and with
  four cells or more; in the markdown table a line with four cells or more that the
  loop reaches inside the table), after the rows \<open>pre\<close>. Let \<open>e\<close> be the company read from
  its first cell, and \<open>c\<close> the nearest company before the row when \<open>e\<close> is a continuation
  (the arrow, or empty), and \<open>e\<close> otherwise. Then after the row \<open>lastCompany\<close> is \<open>c\<close>, the row
  pushes no record or one record whose company is \<open>c\<close>, and what is pushed stays in the
  result of the whole document.
\<close>

theorem continuation_company:
  "(\<not> includes_js (u16 ''<th>'') row \<and> 4 \<le> length (cells_html row) \<longrightarrow>
      (let st = foldl step_html init_html pre;
           e = extractCompanyName_html (cells_html row ! 0);
           c = (if isContinuation e then nearestCompany (companies_html pre) else e)
       in lastCompany (step_html st row) = c \<and>
          (internships (step_html st row) = internships st \<or>
           (\<exists>j. internships (step_html st row) = internships st @ [j] \<and> company j = c)) \<and>
          prefix (internships (step_html st row))
            (internships (foldl step_html init_html (pre @ row # post))))) \<and>
   (let sm = foldl step_md init_md pre';
        e = extractCompanyName_md (cells_md line ! 0);
        c = (if isContinuation e then nearestCompany (companies_md pre') else e)
    in \<not> stopped sm \<and> inTable sm \<and> startsWith (u16 ''|'') line \<and> \<not> isHeader line \<and>
       \<not> isSeparator line \<and> 4 \<le> length (cells_md line) \<longrightarrow>
       lastCompany (step_md sm line) = c \<and>
       (internships (step_md sm line) = internships sm \<or>
        (\<exists>j. internships (step_md sm line) = internships sm @ [j] \<and> company j = c)) \<and>
       prefix (internships (step_md sm line))
         (internships (foldl step_md init_md (pre' @ line # post'))))"
proof -
  have html: "lastCompany (step_html st row) = c \<and>
      (internships (step_html st row) = internships st \<or>
       (\<exists>j. internships (step_html st row) = internships st @ [j] \<and> company j = c)) \<and>
      prefix (internships (step_html st row))
        (internships (foldl step_html init_html (pre @ row # post)))"
    if "\<not> includes_js (u16 ''<th>'') row" "4 \<le> length (cells_html row)"
      and st: "st = foldl step_html init_html pre"
      and c: "c = (if isContinuation (extractCompanyName_html (cells_html row ! 0))
                   then nearestCompany (companies_html pre)
                   else extractCompanyName_html (cells_html row ! 0))"
    for st c
  proof -
    have l: "lastCompany st = nearestCompany (companies_html pre)"
      by (simp add: st lastCompany_html)
    have f: "fst (row_html (lastCompany st) (cells_html row)) = c"
      using that(2) by (simp add: fst_row_html l c)
    have 1: "lastCompany (step_html st row) = c"
      using that(1) f by (simp add: step_html_eq)
    have 2: "internships (step_html st row) = internships st \<or>
       (\<exists>j. internships (step_html st row) = internships st @ [j] \<and> company j = c)"
    proof (cases "snd (row_html (lastCompany st) (cells_html row))")
      case None
      then show ?thesis using that(1) by (simp add: step_html_eq)
    next
      case (Some j)
      then show ?thesis using that(1) snd_row_html [OF Some] f by (simp add: step_html_eq)
    qed
    have 3: "prefix (internships (step_html st row))
        (internships (foldl step_html init_html (pre @ row # post)))"
      using internships_foldl_html [of "step_html st row" post] by (simp add: st)
    from 1 2 3 show ?thesis by blast
  qed
  have md: "lastCompany (step_md sm line) = c \<and>
       (internships (step_md sm line) = internships sm \<or>
        (\<exists>j. internships (step_md sm line) = internships sm @ [j] \<and> company j = c)) \<and>
       prefix (internships (step_md sm line))
         (internships (foldl step_md init_md (pre' @ line # post')))"
    if sm: "sm = foldl step_md init_md pre'"
      and c: "c = (if isContinuation (extractCompanyName_md (cells_md line ! 0))
                   then nearestCompany (companies_md pre')
                   else extractCompanyName_md (cells_md line ! 0))"
      and h: "\<not> stopped sm" "inTable sm" "startsWith (u16 ''|'') line" "\<not> isHeader line"
        "\<not> isSeparator line" "4 \<le> length (cells_md line)"
    for sm c
  proof -
    have l: "lastCompany sm = nearestCompany (companies_md pre')"
      by (simp add: sm lastCompany_md)
    have f: "fst (row_md (lastCompany sm) (cells_md line)) = c"
      using h(6) by (simp add: fst_row_md l c)
    note step = step_md_row [OF h(1) h(4) h(5) h(2) h(3)]
    have 1: "lastCompany (step_md sm line) = c"
      using f by (simp add: step)
    have 2: "internships (step_md sm line) = internships sm \<or>
        (\<exists>j. internships (step_md sm line) = internships sm @ [j] \<and> company j = c)"
    proof (cases "snd (row_md (lastCompany sm) (cells_md line))")
      case None
      then show ?thesis by (simp add: step)
    next
      case (Some j)
      then show ?thesis using snd_row_md [OF Some] f by (simp add: step)
    qed
    have 3: "prefix (internships (step_md sm line))
         (internships (foldl step_md init_md (pre' @ line # post')))"
      using internships_foldl_md [of "step_md sm line" post'] by (simp add: sm)
    from 1 2 3 show ?thesis by blast
  qed
  show ?thesis
    unfolding Let_def using html md by blast
qed

text \<open>C3 on a continuation row after a row of Acme, in both tables.\<close>

theorem continuation_company_witness:
  "\<not> includes_js (u16 ''<th>'') contRow \<and> 4 \<le> length (cells_html contRow) \<and>
   isContinuation (extractCompanyName_html (cells_html contRow ! 0)) \<and>
   nearestCompany (companies_html [acmeRow]) = u16 ''Acme'' \<and>
   internships (step_html (foldl step_html init_html [acmeRow]) contRow) = [job0, jobData] \<and>
   company jobData = u16 ''Acme'' \<and>
   isContinuation (extractCompanyName_md (cells_md contLine ! 0)) \<and>
   nearestCompany (companies_md [u16 ''# Internships'', headerLine, acmeLine]) = u16 ''Acme'' \<and>
   internships (step_md (foldl step_md init_md [u16 ''# Internships'', headerLine, acmeLine])
     contLine) = [job0, jobData]"
proof -
  note t = continuation_company [of contRow "[acmeRow]" "[]"
      "[u16 ''# Internships'', headerLine, acmeLine]" contLine "[]"]
  have h: "\<not> includes_js (u16 ''<th>'') contRow \<and> 4 \<le> length (cells_html contRow) \<and>
      isContinuation (extractCompanyName_html (cells_html contRow ! 0)) \<and>
      isContinuation (extractCompanyName_md (cells_md contLine ! 0)) \<and>
      4 \<le> length (cells_md contLine)"
    using no_th by (simp add: cells_contRow cells_contLine company_arrow_html company_arrow_md
        isContinuation_def)
  have n: "nearestCompany (companies_html [acmeRow]) = u16 ''Acme'' \<and>
      nearestCompany (companies_md [u16 ''# Internships'', headerLine, acmeLine]) = u16 ''Acme''"
    using lastCompany_html [of "[acmeRow]"]
      lastCompany_md [of "[u16 ''# Internships'', headerLine, acmeLine]"]
    by (simp only: run_html run_md) simp
  have r: "internships (step_html (foldl step_html init_html [acmeRow]) contRow) = [job0, jobData]"
    using no_th by (simp only: run_html) (simp add: step_html_eq row_cont_html)
  have m: "internships (step_md (foldl step_md init_md [u16 ''# Internships'', headerLine, acmeLine])
     contLine) = [job0, jobData]"
    using kind_contLine by (simp only: run_md) (simp add: step_md_row row_cont_md)
  have c: "company jobData = u16 ''Acme''"
    by (simp add: jobData_def)
  from t h n r m c show ?thesis by simp
qed


section \<open>Properties of filterInternships\<close>

lemma startsWith_prefix: "startsWith p s = prefix p s"
  by (induction p s rule: startsWith.induct) auto

lemma includes_sublist: "includes_js p s = sublist p s"
  by (induction s) (auto simp: startsWith_prefix sublist_Cons_right)

text \<open>
  C5. \<open>filterInternships\<close> keeps, in their order, the records whose role contains a
  keyword of \<open>ROLE_KEYWORDS\<close> and whose location contains an entry of
  \<open>ALLOWED_LOCATIONS\<close>, where a text contains a key when the lower-cased key is a part of
  the lower-cased text. The result is a subsequence of the input. When \<open>toLowerCase\<close> acts
  on ASCII text as it does in JavaScript, a record with the role "SOFTWARE ENGINEER" and
  the location "remote" passes.
\<close>

theorem filterInternships_spec:
  "filterInternships lower js =
     filter (\<lambda>j. (\<exists>k\<in>set ROLE_KEYWORDS. sublist (lower k) (lower (role j))) \<and>
                 (\<exists>l\<in>set ALLOWED_LOCATIONS. sublist (lower l) (lower (location j)))) js \<and>
   subseq (filterInternships lower js) js \<and>
   ((\<forall>s. (\<forall>c\<in>set s. c < 128) \<longrightarrow> lower s = asciiLower s) \<longrightarrow>
      filterInternships lower [j\<lparr>role := u16 ''SOFTWARE ENGINEER'', location := u16 ''remote''\<rparr>] =
        [j\<lparr>role := u16 ''SOFTWARE ENGINEER'', location := u16 ''remote''\<rparr>])"
proof -
  have 1: "filterInternships lower js =
     filter (\<lambda>j. (\<exists>k\<in>set ROLE_KEYWORDS. sublist (lower k) (lower (role j))) \<and>
                 (\<exists>l\<in>set ALLOWED_LOCATIONS. sublist (lower l) (lower (location j)))) js"
    by (simp add: filterInternships_def roleMatches_def locationMatches_def list_ex_iff
        includes_sublist)
  have 2: "subseq (filterInternships lower js) js"
    by (simp add: filterInternships_def)
  have 3: "filterInternships lower [j\<lparr>role := u16 ''SOFTWARE ENGINEER'', location := u16 ''remote''\<rparr>] =
        [j\<lparr>role := u16 ''SOFTWARE ENGINEER'', location := u16 ''remote''\<rparr>]"
    if a: "\<forall>s. (\<forall>c\<in>set s. c < 128) \<longrightarrow> lower s = asciiLower s"
  proof -
    have l: "lower (u16 ''SOFTWARE ENGINEER'') = u16 ''software engineer'' \<and>
        lower (u16 ''remote'') = u16 ''remote'' \<and>
        lower (u16 ''Software'') = u16 ''software'' \<and>
        lower (u16 ''Remote'') = u16 ''remote''"
      using a ascii_examples asciiLower_examples by simp
    show ?thesis
      using upper_passes
      by (simp add: filterInternships_def roleMatches_def locationMatches_def
          ROLE_KEYWORDS_def ALLOWED_LOCATIONS_def l)
  qed
  from 1 2 3 show ?thesis by blast
qed

text \<open>C5 with the ASCII lower case, on an upper-case record and a record of another role.\<close>

theorem filterInternships_spec_witness:
  "filterInternships asciiLower [jobUpper, jobSales] = [jobUpper] \<and>
   subseq [jobUpper] [jobUpper, jobSales] \<and>
   filterInternships asciiLower [jobUpper] = [jobUpper]"
proof -
  note t = filterInternships_spec [of asciiLower "[jobUpper, jobSales]" jobUpper]
  have 2: "subseq (filterInternships asciiLower [jobUpper, jobSales]) [jobUpper, jobSales]"
    by (rule t [THEN conjunct2, THEN conjunct1])
  have 3: "filterInternships asciiLower [jobUpper] = [jobUpper]"
    using t [THEN conjunct2, THEN conjunct2] by (simp add: jobUpper_def)
  from 2 3 filter_examples show ?thesis by simp
qed


section \<open>Properties of the extraction of the link\<close>

lemma lit_i_Some:
  "lit_i p k s = Some r \<Longrightarrow> k (drop (length p) s) = Some r \<and> length p \<le> length s"
  by (induction p k s rule: lit_i.induct) (auto split: if_splits)

lemma lit_Some:
  "lit p k s = Some r \<Longrightarrow> k (drop (length p) s) = Some r \<and> prefix p s"
  by (induction p k s rule: lit.induct) (auto split: if_splits)

lemma star_Some: "star P k s = Some r \<Longrightarrow> \<exists>s'. suffix s' s \<and> k s' = Some r"
proof (induction s)
  case Nil
  then show ?case by auto
next
  case (Cons c cs)
  show ?case
  proof (cases "P c \<and> star P k cs \<noteq> None")
    case True
    then obtain r' where r': "star P k cs = Some r'" by auto
    with True Cons.prems have "r' = r" by simp
    with Cons.IH r' obtain s' where "suffix s' cs" "k s' = Some r" by auto
    then show ?thesis by (auto intro: suffix_ConsI)
  next
    case False
    with Cons.prems have "k (c # cs) = Some r" by (auto split: if_splits option.splits)
    then show ?thesis by auto
  qed
qed

lemma plus1_Some:
  "plus1 P k s = Some r \<Longrightarrow> \<exists>s'. suffix s' s \<and> length s' < length s \<and> k s' = Some r"
proof (cases s)
  case Nil
  assume "plus1 P k s = Some r"
  with Nil show ?thesis by simp
next
  case (Cons c cs)
  assume "plus1 P k s = Some r"
  with Cons have "star P k cs = Some r" by (auto split: if_splits)
  from star_Some [OF this] obtain s' where s': "suffix s' cs" "k s' = Some r" by auto
  from s'(1) have "suffix s' (c # cs)" "length s' < length (c # cs)"
    using suffix_length_le [OF s'(1)] by (auto intro: suffix_ConsI)
  with s'(2) Cons show ?thesis by blast
qed

lemma hrefRegex_consumes:
  assumes "hrefRegex s = Some (h, rest)"
  shows "length rest < length s"
proof -
  from assms have "plus1 isSpace (lit_i (u16 ''href='' @ dquote)
       (\<lambda>a. plus1 (\<lambda>c. c \<noteq> 34) (\<lambda>b. lit_i dquote (\<lambda>rest. Some (between a b, rest)) b) a))
       (drop (length (u16 ''<a'')) s) = Some (h, rest)"
    unfolding hrefRegex_def by (rule lit_i_Some [THEN conjunct1])
  from plus1_Some [OF this] obtain s1 where s1: "length s1 < length (drop (length (u16 ''<a'')) s)"
    and 1: "lit_i (u16 ''href='' @ dquote)
       (\<lambda>a. plus1 (\<lambda>c. c \<noteq> 34) (\<lambda>b. lit_i dquote (\<lambda>rest. Some (between a b, rest)) b) a) s1
       = Some (h, rest)" by blast
  define a where "a = drop (length (u16 ''href='' @ dquote)) s1"
  from lit_i_Some [OF 1] have 2: "plus1 (\<lambda>c. c \<noteq> 34)
      (\<lambda>b. lit_i dquote (\<lambda>rest. Some (between a b, rest)) b) a = Some (h, rest)"
    by (simp add: a_def)
  from plus1_Some [OF 2] obtain b where b: "length b < length a"
    and 3: "lit_i dquote (\<lambda>rest. Some (between a b, rest)) b = Some (h, rest)" by blast
  from lit_i_Some [OF 3] have "rest = drop (length dquote) b" by simp
  then have "length rest \<le> length b" by simp
  also have "\<dots> < length a" by (rule b)
  also have "\<dots> \<le> length s1" by (simp add: a_def)
  also have "\<dots> \<le> length s" using s1 by simp
  finally show ?thesis .
qed

lemma search_matchAll:
  assumes "\<And>s x rest. m s = Some (x, rest) \<Longrightarrow> length rest < length s"
  shows "map_option fst (search m s) = (case matchAll m s of [] \<Rightarrow> None | x # xs \<Rightarrow> Some x)"
proof (induction s)
  case Nil
  have "m [] = None"
  proof (cases "m []")
    case None
    then show ?thesis .
  next
    case (Some p)
    then show ?thesis using assms [of "[]" "fst p" "snd p"] by simp
  qed
  then show ?case by (simp add: matchAll.simps [of m "[]"])
next
  case (Cons c cs)
  show ?case
  proof (cases "m (c # cs)")
    case None
    then show ?thesis using Cons.IH by (simp add: matchAll.simps [of m "c # cs"])
  next
    case (Some p)
    then show ?thesis using assms [of "c # cs" "fst p" "snd p"]
      by (cases p) (simp add: matchAll.simps [of m "c # cs"])
  qed
qed

lemma search_hrefRegex:
  "search hrefRegex cell = None \<longleftrightarrow> matchAll hrefRegex cell = []"
  "search hrefRegex cell = Some (h, rest) \<Longrightarrow> \<exists>hs. matchAll hrefRegex cell = h # hs"
proof -
  have e: "map_option fst (search hrefRegex cell) =
      (case matchAll hrefRegex cell of [] \<Rightarrow> None | x # xs \<Rightarrow> Some x)"
    by (rule search_matchAll) (rule hrefRegex_consumes)
  show "search hrefRegex cell = None \<longleftrightarrow> matchAll hrefRegex cell = []"
    using e by (auto split: list.splits)
  show "\<exists>hs. matchAll hrefRegex cell = h # hs" if "search hrefRegex cell = Some (h, rest)"
    using e that by (auto split: list.splits)
qed

lemma directLink_filter:
  "directLink hs =
     (case filter (\<lambda>h. \<not> sublist (u16 ''simplify.jobs'') h) hs of
        [] \<Rightarrow> None | h # hs' \<Rightarrow> Some (stripUtm h))"
  by (induction hs) (simp_all add: includes_sublist)

lemma splitAcc_hd:
  "sep \<noteq> [] \<Longrightarrow> splitAcc sep acc s \<noteq> [] \<and> hd (splitAcc sep acc s) = rev acc @ cutBefore sep s"
proof (induction sep acc s rule: splitAcc.induct)
  case (1 sep acc s)
  show ?case
  proof (cases s)
    case Nil
    have "splitAcc sep acc s = [rev acc]"
      by (subst splitAcc.simps) (simp add: Nil)
    then show ?thesis by (simp add: Nil)
  next
    case (Cons c cs)
    show ?thesis
    proof (cases "startsWith sep s")
      case True
      have "splitAcc sep acc s = rev acc # splitAcc sep [] (drop (length sep) s)"
        using True Cons "1.prems" by (subst splitAcc.simps) simp
      then show ?thesis using True Cons by simp
    next
      case False
      have "splitAcc sep acc s = splitAcc sep (hd s # acc) (tl s)"
        using False Cons by (subst splitAcc.simps) simp
      then show ?thesis using False Cons "1.prems" "1.IH"(2) by simp
    qed
  qed
qed

lemma stripUtm_cutBefore: "stripUtm h = cutBefore (u16 ''?utm_source'') h"
  using splitAcc_hd [of "u16 ''?utm_source''" "[]" h]
  by (simp add: stripUtm_def split_js_def u16_def)

lemma cutBefore_prefix: "prefix (cutBefore sep s) s"
  by (induction s) auto

lemma cutBefore_no_sep: "sep \<noteq> [] \<Longrightarrow> \<not> sublist sep (cutBefore sep s)"
proof (induction s)
  case Nil
  then show ?case by simp
next
  case (Cons c cs)
  show ?case
  proof (cases "startsWith sep (c # cs)")
    case True
    then show ?thesis using Cons.prems by simp
  next
    case False
    have "prefix (c # cutBefore sep cs) (c # cs)" by (simp add: cutBefore_prefix)
    then have "\<not> prefix sep (c # cutBefore sep cs)"
      using False prefix_order.trans [of sep "c # cutBefore sep cs" "c # cs"]
      by (auto simp: startsWith_prefix)
    then show ?thesis using False Cons by (simp add: sublist_Cons_right)
  qed
qed

lemma cutBefore_cases: "cutBefore sep s = s \<or> prefix (cutBefore sep s @ sep) s"
  by (induction s) (auto simp: startsWith_prefix)

text \<open>
  C2, as the code has it. The hrefs of a cell are the matches of \<open><a\s+href="([^"]+)"\<close>,
  in order. The version for the HTML table returns the first href that does not contain
  \<open>simplify.jobs\<close>, cut at \<open>?utm_source\<close>; when every href contains \<open>simplify.jobs\<close> it
  returns the first href as it is, not cut; with no href it returns the empty string.
  The version for the markdown table returns the lock for a cell that contains the lock;
  otherwise the first href, whether or not it contains \<open>simplify.jobs\<close>, cut at
  \<open>?utm_source\<close>; with no href the URL of the first markdown link, cut likewise; otherwise
  the empty string. Cutting keeps the text before the first \<open>?utm_source\<close>: a prefix of
  the href that does not contain \<open>?utm_source\<close>, the whole href when it has none.
\<close>

theorem application_link_by_dialect:
  "extractApplicationLink_html cell =
     (case filter (\<lambda>h. \<not> sublist (u16 ''simplify.jobs'') h) (matchAll hrefRegex cell) of
        h # hs \<Rightarrow> stripUtm h
      | [] \<Rightarrow> (case matchAll hrefRegex cell of h # hs \<Rightarrow> h | [] \<Rightarrow> [])) \<and>
   extractApplicationLink_md cell =
     (if sublist lock cell then lock
      else (case matchAll hrefRegex cell of
              h # hs \<Rightarrow> stripUtm h
            | [] \<Rightarrow>
               (case search (mdLinkRegex (\<lambda>t u rest. Some u)) cell of
                  Some u \<Rightarrow> stripUtm u
                | None \<Rightarrow> []))) \<and>
   stripUtm href = cutBefore (u16 ''?utm_source'') href \<and>
   prefix (stripUtm href) href \<and>
   \<not> sublist (u16 ''?utm_source'') (stripUtm href) \<and>
   (stripUtm href = href \<or> prefix (stripUtm href @ u16 ''?utm_source'') href)"
proof -
  have 1: "extractApplicationLink_html cell =
     (case filter (\<lambda>h. \<not> sublist (u16 ''simplify.jobs'') h) (matchAll hrefRegex cell) of
        h # hs \<Rightarrow> stripUtm h
      | [] \<Rightarrow> (case matchAll hrefRegex cell of h # hs \<Rightarrow> h | [] \<Rightarrow> []))"
  proof (cases "search hrefRegex cell")
    case None
    moreover from None have "matchAll hrefRegex cell = []"
      by (simp add: search_hrefRegex(1))
    ultimately show ?thesis
      by (simp add: extractApplicationLink_html_def directLink_filter)
  next
    case (Some p)
    obtain h rest where p: "p = (h, rest)" by (cases p)
    from search_hrefRegex(2) [OF Some [unfolded p]] obtain hs
      where "matchAll hrefRegex cell = h # hs" by blast
    then show ?thesis using Some p
      by (simp add: extractApplicationLink_html_def directLink_filter split: list.splits)
  qed
  have 2: "extractApplicationLink_md cell =
     (if sublist lock cell then lock
      else (case matchAll hrefRegex cell of
              h # hs \<Rightarrow> stripUtm h
            | [] \<Rightarrow>
               (case search (mdLinkRegex (\<lambda>t u rest. Some u)) cell of
                  Some u \<Rightarrow> stripUtm u
                | None \<Rightarrow> [])))"
  proof (cases "search hrefRegex cell")
    case None
    moreover from None have "matchAll hrefRegex cell = []"
      by (simp add: search_hrefRegex(1))
    ultimately show ?thesis
      by (simp add: extractApplicationLink_md_def includes_sublist)
  next
    case (Some p)
    obtain h rest where p: "p = (h, rest)" by (cases p)
    from search_hrefRegex(2) [OF Some [unfolded p]] obtain hs
      where "matchAll hrefRegex cell = h # hs" by blast
    then show ?thesis using Some p
      by (simp add: extractApplicationLink_md_def includes_sublist)
  qed
  have ne: "u16 ''?utm_source'' \<noteq> []" by (simp add: u16_def)
  have 3: "stripUtm href = cutBefore (u16 ''?utm_source'') href"
    by (rule stripUtm_cutBefore)
  have 4: "prefix (stripUtm href) href"
    by (simp add: 3 cutBefore_prefix)
  have 5: "\<not> sublist (u16 ''?utm_source'') (stripUtm href)"
    by (simp only: 3 cutBefore_no_sep [OF ne] not_False_eq_True)
  have 6: "stripUtm href = href \<or> prefix (stripUtm href @ u16 ''?utm_source'') href"
    unfolding 3 by (rule cutBefore_cases)
  from 1 2 3 4 5 6 show ?thesis by blast
qed

text \<open>C2 on the two example cells.\<close>

theorem application_link_by_dialect_witness:
  "extractApplicationLink_html cellTwoLinks = u16 ''https://acme.co/apply'' \<and>
   extractApplicationLink_md cellAggregator = u16 ''https://simplify.jobs/p/1'' \<and>
   prefix (u16 ''https://acme.co/apply'') (u16 ''https://acme.co/apply?utm_source=x'')"
proof -
  note t = application_link_by_dialect [of cellTwoLinks "u16 ''https://acme.co/apply?utm_source=x''",
      THEN conjunct2, THEN conjunct2, THEN conjunct2, THEN conjunct1]
  have e: "stripUtm (u16 ''https://acme.co/apply?utm_source=x'') = u16 ''https://acme.co/apply''"
    by (simp add: eval)
  from t e links_cellTwoLinks links_cellAggregator show ?thesis by simp
qed

text \<open>
  C2 as the claim has it fails: for a cell with an aggregator link before a direct link
  the version for the markdown table returns the aggregator link, and for a cell with
  only an aggregator link the version for the HTML table returns it with its
  \<open>?utm_source\<close> suffix.
\<close>

theorem application_link_counterexample:
  "matchAll hrefRegex cellTwoLinks =
     [u16 ''https://simplify.jobs/p/1'', u16 ''https://acme.co/apply?utm_source=x''] \<and>
   extractApplicationLink_md cellTwoLinks = u16 ''https://simplify.jobs/p/1'' \<and>
   extractApplicationLink_md cellTwoLinks \<noteq> u16 ''https://acme.co/apply'' \<and>
   extractApplicationLink_html cellAggregator = u16 ''https://simplify.jobs/p/1?utm_source=x'' \<and>
   extractApplicationLink_html cellAggregator \<noteq> u16 ''https://simplify.jobs/p/1''"
  using hrefs_cellTwoLinks links_cellTwoLinks links_cellAggregator by (simp add: u16_def)


section \<open>Properties of cleanText\<close>

lemma star_final: "star P (\<lambda>rest. Some (x, rest)) s = Some (x, dropWhile P s)"
  by (induction s) auto

lemma spacesRegex_eq:
  "spacesRegex s =
     (case s of [] \<Rightarrow> None
      | c # cs \<Rightarrow> if isSpace c then Some ([32], dropWhile isSpace cs) else None)"
  by (cases s) (simp_all add: spacesRegex_def star_final u16_def)

lemma replaceAll_spaces_Nil: "replaceAll spacesRegex [] = []"
  by (subst replaceAll.simps) (simp add: spacesRegex_eq)

lemma replaceAll_spaces_Cons:
  "replaceAll spacesRegex (c # cs) =
     (if isSpace c then 32 # replaceAll spacesRegex (dropWhile isSpace cs)
      else c # replaceAll spacesRegex cs)"
  using length_dropWhile_le [of isSpace cs]
  by (subst replaceAll.simps) (simp add: spacesRegex_eq less_Suc_eq_le)

lemma collapsed_Cons: "collapsed s \<Longrightarrow> (s \<noteq> [] \<longrightarrow> \<not> isSpace (hd s)) \<Longrightarrow> \<not> isSpace c \<or> c = 32
   \<Longrightarrow> collapsed (c # s)"
  by (cases s) auto

lemma collapsed_replaceAll: "collapsed (replaceAll spacesRegex s)"
proof (induction s rule: length_induct)
  case (1 s)
  show ?case
  proof (cases s)
    case Nil
    then show ?thesis by (simp add: replaceAll_spaces_Nil)
  next
    case (Cons c cs)
    show ?thesis
    proof (cases "isSpace c")
      case True
      let ?d = "dropWhile isSpace cs"
      have len: "length ?d < length s" using length_dropWhile_le [of isSpace cs] Cons by simp
      have c: "collapsed (replaceAll spacesRegex ?d)" using 1 len by blast
      have h: "replaceAll spacesRegex ?d \<noteq> [] \<longrightarrow> \<not> isSpace (hd (replaceAll spacesRegex ?d))"
      proof (cases ?d)
        case Nil
        show ?thesis unfolding Nil by (simp add: replaceAll_spaces_Nil)
      next
        case (Cons e es)
        have "\<not> isSpace (hd ?d)" by (rule hd_dropWhile) (simp add: Cons)
        then have "\<not> isSpace e" by (simp add: Cons)
        then show ?thesis unfolding Cons by (simp add: replaceAll_spaces_Cons)
      qed
      show ?thesis using True Cons collapsed_Cons [OF c h, of 32]
        by (simp add: replaceAll_spaces_Cons)
    next
      case False
      have c: "collapsed (replaceAll spacesRegex cs)" using 1 Cons by simp
      show ?thesis using False Cons c
        by (cases "replaceAll spacesRegex cs") (simp_all add: replaceAll_spaces_Cons)
    qed
  qed
qed

lemma collapsed_tl: "collapsed (c # cs) \<Longrightarrow> collapsed cs"
  by (cases cs) auto

lemma collapsed_suffix: "collapsed (a @ b) \<Longrightarrow> collapsed b"
  by (induction a) (auto dest: collapsed_tl)

lemma collapsed_prefix: "collapsed (a @ b) \<Longrightarrow> collapsed a"
proof (induction a rule: collapsed.induct)
  case 1
  then show ?case by simp
next
  case (2 c)
  then show ?case by (cases b) auto
next
  case (3 c d cs)
  then show ?case by auto
qed

lemma collapsed_nth:
  "collapsed t \<Longrightarrow> i < length t \<Longrightarrow> isSpace (t ! i) \<Longrightarrow>
   t ! i = 32 \<and> (Suc i < length t \<longrightarrow> \<not> isSpace (t ! Suc i))"
proof (induction t arbitrary: i rule: collapsed.induct)
  case 1
  then show ?case by simp
next
  case (2 c)
  then show ?case by simp
next
  case (3 c d cs)
  show ?case
  proof (cases i)
    case 0
    then show ?thesis using 3 by auto
  next
    case (Suc n)
    then show ?thesis using "3.IH" [of n] "3.prems" by auto
  qed
qed

lemma trim_parts:
  "\<exists>a b. s = a @ trim s @ b \<and>
     (trim s \<noteq> [] \<longrightarrow> \<not> isSpace (hd (trim s)) \<and> \<not> isSpace (last (trim s)))"
proof -
  define x where "x = dropWhile isSpace s"
  define y where "y = dropWhile isSpace (rev x)"
  have t: "trim s = rev y" by (simp add: trim_def x_def y_def)
  have 1: "s = takeWhile isSpace s @ x" by (simp add: x_def)
  have "rev (takeWhile isSpace (rev x) @ y) = rev (rev x)"
    unfolding y_def by (rule arg_cong [where f = rev]) (rule takeWhile_dropWhile_id)
  then have 2: "x = rev y @ rev (takeWhile isSpace (rev x))"
    by (simp only: rev_append rev_rev_ident)
  have 3: "s = takeWhile isSpace s @ trim s @ rev (takeWhile isSpace (rev x))"
    using 1 2 by (simp add: t)
  have 4: "\<not> isSpace (hd (trim s)) \<and> \<not> isSpace (last (trim s))" if ne: "trim s \<noteq> []"
  proof -
    from ne have y: "y \<noteq> []" by (simp add: t)
    from y have "dropWhile isSpace (rev x) \<noteq> []" by (simp add: y_def)
    then have l: "\<not> isSpace (hd y)" unfolding y_def by (rule hd_dropWhile)
    from 2 y have xne: "x \<noteq> []" by auto
    from xne have "dropWhile isSpace s \<noteq> []" by (simp add: x_def)
    then have hx: "\<not> isSpace (hd x)" unfolding x_def by (rule hd_dropWhile)
    from 2 y have "hd x = hd (rev y)" by (metis hd_append2 rev_is_Nil_conv)
    with hx l y show ?thesis by (simp add: t last_rev)
  qed
  from 3 4 show ?thesis by blast
qed

lemma wsNormal_trim: "collapsed s \<Longrightarrow> wsNormal (trim s)"
proof -
  assume c: "collapsed s"
  obtain a b where ab: "s = a @ trim s @ b"
    and ends: "trim s \<noteq> [] \<longrightarrow> \<not> isSpace (hd (trim s)) \<and> \<not> isSpace (last (trim s))"
    using trim_parts by blast
  from c ab have "collapsed (a @ trim s @ b)" by simp
  then have ct: "collapsed (trim s)"
    using collapsed_suffix [of a "trim s @ b"] collapsed_prefix [of "trim s" b] by blast
  show ?thesis
    unfolding wsNormal_def
  proof (intro allI impI)
    fix i assume i: "i < length (trim s)" and sp: "isSpace (trim s ! i)"
    from i have ne: "trim s \<noteq> []" by auto
    from ends ne have h: "\<not> isSpace (trim s ! 0)"
      and l: "\<not> isSpace (trim s ! (length (trim s) - 1))"
      using ne by (simp_all add: hd_conv_nth last_conv_nth)
    from collapsed_nth [OF ct i sp] have 1: "trim s ! i = 32"
      and 2: "Suc i < length (trim s) \<longrightarrow> \<not> isSpace (trim s ! Suc i)" by simp_all
    have 3: "0 < i" using h sp by (cases i) auto
    have 4: "Suc i < length (trim s)"
    proof (rule ccontr)
      assume "\<not> Suc i < length (trim s)"
      with i have "i = length (trim s) - 1" by simp
      with l sp show False by simp
    qed
    from 1 2 3 4 show "trim s ! i = 32 \<and> 0 < i \<and> Suc i < length (trim s) \<and>
        \<not> isSpace (trim s ! Suc i)" by simp
  qed
qed

lemma wsNormal_cleanText: "wsNormal (cleanText_html text) \<and> wsNormal (cleanText_md text)"
  by (simp add: cleanText_html_def cleanText_md_def wsNormal_trim collapsed_replaceAll)

lemma suffix_take: "suffix rest s \<Longrightarrow> s = take (length s - length rest) s @ rest"
  by (auto simp: suffix_def)

lemma subseq_replaceAll: "shrinks m \<Longrightarrow> subseq (replaceAll m s) s"
proof (induction s rule: length_induct)
  case (1 s)
  note sh = \<open>shrinks m\<close>
  have tl: "subseq (hd s # replaceAll m (tl s)) s" if "s \<noteq> []"
  proof -
    have "subseq (replaceAll m (tl s)) (tl s)" using 1 that by simp
    then have "subseq (hd s # replaceAll m (tl s)) (hd s # tl s)" by simp
    then show ?thesis using that by simp
  qed
  show ?case
  proof (cases "m s")
    case None
    then show ?thesis using tl by (subst replaceAll.simps) simp
  next
    case (Some p)
    obtain r rest where p: "p = (r, rest)" by (cases p)
    from sh Some p have suf: "suffix rest s"
      and sub: "subseq r (take (length s - length rest) s)"
      unfolding shrinks_def by blast+
    show ?thesis
    proof (cases "length rest < length s")
      case True
      have "subseq (replaceAll m rest) rest" using 1 True by simp
      with sub have "subseq (r @ replaceAll m rest) (take (length s - length rest) s @ rest)"
        by (rule list_emb_append_mono)
      then have "subseq (r @ replaceAll m rest) s" using suffix_take [OF suf] by simp
      then show ?thesis using Some p True by (subst replaceAll.simps) simp
    next
      case False
      with suf have "length rest = length s" using suffix_length_le [OF suf] by simp
      with sub have r: "r = []" by simp
      show ?thesis using Some p False r tl by (subst replaceAll.simps) simp
    qed
  qed
qed

lemma replaceAll_None: "(\<And>t. suffix t s \<Longrightarrow> m t = None) \<Longrightarrow> replaceAll m s = s"
proof (induction s)
  case Nil
  then show ?case by (subst replaceAll.simps) simp
next
  case (Cons c cs)
  have "m (c # cs) = None" using Cons.prems [of "c # cs"] by simp
  moreover have "replaceAll m cs = cs"
    by (rule Cons.IH) (simp add: Cons.prems suffix_ConsI)
  ultimately show ?case by (subst replaceAll.simps) simp
qed

lemma replaceLit_absent: "c \<notin> set s \<Longrightarrow> replaceLit (c # p) r s = s"
  unfolding replaceLit_def
proof (rule replaceAll_None)
  fix t assume "c \<notin> set s" "suffix t s"
  then have "c \<notin> set t" using set_mono_suffix by blast
  then show "lit (c # p) (\<lambda>rest. Some (r, rest)) t = None" by (cases t) auto
qed

lemma between_subseq:
  "suffix a s \<Longrightarrow> suffix b a \<Longrightarrow> suffix rest b \<Longrightarrow>
   subseq (between a b) (take (length s - length rest) s)"
proof -
  assume "suffix a s" "suffix b a" "suffix rest b"
  then obtain u v w where s: "s = u @ a" and a: "a = v @ b" and b: "b = w @ rest"
    by (auto simp: suffix_def)
  have "between a b = v" by (simp add: between_def a)
  moreover have "take (length s - length rest) s = u @ v @ w" by (simp add: s a b)
  moreover have "subseq v (v @ w)" by (rule list_emb_prefix) simp
  then have "subseq v (u @ v @ w)" by (rule list_emb_append2)
  ultimately show ?thesis by simp
qed

lemma subseq_set: "subseq xs ys \<Longrightarrow> set xs \<subseteq> set ys"
  by (induction rule: list_emb.induct) auto

lemma star_None:
  "star P k s = None \<Longrightarrow> s = a @ b \<Longrightarrow> \<forall>c\<in>set a. P c \<Longrightarrow> k b = None"
proof (induction s arbitrary: a)
  case Nil
  then show ?case by simp
next
  case (Cons c cs)
  show ?case
  proof (cases a)
    case Nil
    with Cons.prems show ?thesis by (auto split: if_splits option.splits)
  next
    case (Cons d ds)
    with Cons.prems have "P c" "cs = ds @ b" "\<forall>c\<in>set ds. P c" by auto
    moreover from Cons.prems(1) \<open>P c\<close> have "star P k cs = None"
      by (auto split: option.splits)
    ultimately show ?thesis using Cons.IH by blast
  qed
qed

lemma tagRegex_Some:
  "tagRegex s = Some (r, rest) \<Longrightarrow> r = [] \<and> suffix rest s \<and> length rest < length s"
proof -
  assume m: "tagRegex s = Some (r, rest)"
  define a where "a = drop (length (u16 ''<'')) s"
  from lit_Some [OF m [unfolded tagRegex_def]]
  have 1: "star (noneOf ''>'') (lit (u16 ''>'') (\<lambda>rest. Some ([], rest))) a = Some (r, rest)"
    and p: "prefix (u16 ''<'') s" by (simp_all add: a_def)
  from star_Some [OF 1] obtain b where b: "suffix b a"
    and 2: "lit (u16 ''>'') (\<lambda>rest. Some ([], rest)) b = Some (r, rest)" by blast
  from lit_Some [OF 2] have 3: "r = []" "rest = drop (length (u16 ''>'')) b" by simp_all
  have "suffix rest b" by (simp add: 3 suffix_drop)
  moreover have "suffix a s" by (simp add: a_def suffix_drop)
  ultimately have "suffix rest s" using b by (meson suffix_order.trans)
  moreover have "length a < length s" using p by (auto simp: a_def u16_def prefix_def)
  moreover have "length rest \<le> length a"
    using suffix_length_le [OF b] by (simp add: 3)
  ultimately show ?thesis using 3 by simp
qed

lemma tagRegex_None: "tagRegex (60 # cs) = None \<Longrightarrow> 62 \<notin> set cs"
proof
  assume n: "tagRegex (60 # cs) = None" and "62 \<in> set cs"
  then obtain a b where ab: "cs = a @ 62 # b" "62 \<notin> set a"
    by (meson split_list_first)
  from n have "star (noneOf ''>'') (lit (u16 ''>'') (\<lambda>rest. Some ([] :: jsstring, rest))) cs = None"
    by (simp add: tagRegex_def u16_def)
  from star_None [OF this ab(1)] ab(2)
  have "lit (u16 ''>'') (\<lambda>rest. Some ([] :: jsstring, rest)) (62 # b) = None"
    by (auto simp: noneOf_def u16_def)
  then show False by (simp add: u16_def)
qed

lemma shrinks_tagRegex: "shrinks tagRegex"
  unfolding shrinks_def using tagRegex_Some by auto

lemma noTag_replaceAll_tagRegex: "noTag (replaceAll tagRegex s)"
proof (induction s rule: length_induct)
  case (1 s)
  show ?case
  proof (cases "tagRegex s")
    case None
    show ?thesis
    proof (cases s)
      case Nil
      then show ?thesis using None by (subst replaceAll.simps) simp
    next
      case (Cons c cs)
      have r: "replaceAll tagRegex s = c # replaceAll tagRegex cs"
        using None Cons by (subst replaceAll.simps) simp
      have "noTag (replaceAll tagRegex cs)" using 1 Cons by simp
      moreover have "62 \<notin> set (replaceAll tagRegex cs)" if "c = 60"
      proof -
        from that None Cons have "62 \<notin> set cs" using tagRegex_None by simp
        moreover have "set (replaceAll tagRegex cs) \<subseteq> set cs"
          using subseq_replaceAll [OF shrinks_tagRegex] by (rule subseq_set)
        ultimately show ?thesis by blast
      qed
      ultimately show ?thesis by (simp add: r)
    qed
  next
    case (Some p)
    obtain r rest where p: "p = (r, rest)" by (cases p)
    from tagRegex_Some [OF Some [unfolded p]] have "r = []" "length rest < length s" by simp_all
    moreover from this 1 have "noTag (replaceAll tagRegex rest)" by simp
    ultimately show ?thesis using Some p by (subst replaceAll.simps) simp
  qed
qed

lemma mdLinkRegex_Some:
  assumes "mdLinkRegex (\<lambda>t u rest. Some (t, rest)) s = Some (r, rest)"
  shows "suffix rest s \<and> subseq r (take (length s - length rest) s)"
proof -
  define a where "a = drop (length (u16 ''['')) s"
  from lit_Some [OF assms [unfolded mdLinkRegex_def]]
  have 1: "plus1 (noneOf '']'')
      (\<lambda>b. lit (u16 '']('')
         (\<lambda>c. plus1 (noneOf '')'')
            (\<lambda>d. lit (u16 '')'') (\<lambda>rest. Some (between a b, rest)) d) c) b) a = Some (r, rest)"
    by (simp add: a_def)
  from plus1_Some [OF 1] obtain b where b: "suffix b a"
    and 2: "lit (u16 '']('')
         (\<lambda>c. plus1 (noneOf '')'')
            (\<lambda>d. lit (u16 '')'') (\<lambda>rest. Some (between a b, rest)) d) c) b = Some (r, rest)"
    by blast
  define c where "c = drop (length (u16 '']('')) b"
  from lit_Some [OF 2] have 3: "plus1 (noneOf '')'')
      (\<lambda>d. lit (u16 '')'') (\<lambda>rest. Some (between a b, rest)) d) c = Some (r, rest)"
    by (simp add: c_def)
  from plus1_Some [OF 3] obtain d where d: "suffix d c"
    and 4: "lit (u16 '')'') (\<lambda>rest. Some (between a b, rest)) d = Some (r, rest)" by blast
  from lit_Some [OF 4] have 5: "r = between a b" "rest = drop (length (u16 '')'')) d" by simp_all
  have "suffix rest d" by (simp add: 5 suffix_drop)
  moreover have "suffix c b" by (simp add: c_def suffix_drop)
  ultimately have rb: "suffix rest b" using d by (meson suffix_order.trans)
  have as: "suffix a s" by (simp add: a_def suffix_drop)
  from as b rb have "suffix rest s" by (meson suffix_order.trans)
  moreover have "subseq r (take (length s - length rest) s)"
    unfolding 5(1) by (rule between_subseq [OF as b rb])
  ultimately show ?thesis by simp
qed

lemma boldRegex_Some:
  assumes "boldRegex s = Some (r, rest)"
  shows "suffix rest s \<and> subseq r (take (length s - length rest) s)"
proof -
  define a where "a = drop (length (u16 ''**'')) s"
  from lit_Some [OF assms [unfolded boldRegex_def]]
  have 1: "plus1 (noneOf ''*'')
      (\<lambda>b. lit (u16 ''**'') (\<lambda>rest. Some (between a b, rest)) b) a = Some (r, rest)"
    by (simp add: a_def)
  from plus1_Some [OF 1] obtain b where b: "suffix b a"
    and 2: "lit (u16 ''**'') (\<lambda>rest. Some (between a b, rest)) b = Some (r, rest)" by blast
  from lit_Some [OF 2] have 5: "r = between a b" "rest = drop (length (u16 ''**'')) b" by simp_all
  have rb: "suffix rest b" by (simp add: 5 suffix_drop)
  have as: "suffix a s" by (simp add: a_def suffix_drop)
  from as b rb have "suffix rest s" by (meson suffix_order.trans)
  moreover have "subseq r (take (length s - length rest) s)"
    unfolding 5(1) by (rule between_subseq [OF as b rb])
  ultimately show ?thesis by simp
qed

lemma emojiRegex_Some:
  assumes "emojiRegex s = Some (r, rest)"
  shows "suffix rest s \<and> subseq r (take (length s - length rest) s)"
proof -
  from assms have "lit passport (\<lambda>rest. Some ([], rest)) s = Some (r, rest) \<or>
      lit us_flag (\<lambda>rest. Some ([], rest)) s = Some (r, rest)"
    by (auto simp: emojiRegex_def alt_def split: option.splits)
  then have "r = [] \<and> (rest = drop (length passport) s \<or> rest = drop (length us_flag) s)"
    using lit_Some by fastforce
  then show ?thesis by (auto simp: suffix_drop)
qed

lemma shrinks_md:
  "shrinks (mdLinkRegex (\<lambda>t u rest. Some (t, rest)))" "shrinks boldRegex" "shrinks emojiRegex"
  unfolding shrinks_def using mdLinkRegex_Some boldRegex_Some emojiRegex_Some by blast+

lemma noTag_filter: "noTag (filter angle t) = noTag t"
  by (induction t) (auto simp: angle_def)

lemma space_not_angle: "isSpace c \<Longrightarrow> \<not> angle c"
  by (auto simp: isSpace_def angle_def)

lemma filter_angle_spaces: "filter angle (replaceAll spacesRegex s) = filter angle s"
proof (induction s rule: length_induct)
  case (1 s)
  show ?case
  proof (cases s)
    case Nil
    then show ?thesis by (simp add: replaceAll_spaces_Nil)
  next
    case (Cons c cs)
    show ?thesis
    proof (cases "isSpace c")
      case True
      have d: "filter angle (dropWhile isSpace cs) = filter angle cs"
        by (induction cs) (auto simp: space_not_angle)
      have e: "\<not> angle 32" by (simp add: angle_def)
      have "length (dropWhile isSpace cs) < length s"
        using length_dropWhile_le [of isSpace cs] Cons by simp
      with 1 have "filter angle (replaceAll spacesRegex (dropWhile isSpace cs)) =
          filter angle (dropWhile isSpace cs)" by blast
      with d e True Cons show ?thesis
        by (simp add: replaceAll_spaces_Cons space_not_angle)
    next
      case False
      with 1 Cons show ?thesis by (simp add: replaceAll_spaces_Cons)
    qed
  qed
qed

lemma noTag_spaces: "noTag s \<Longrightarrow> noTag (replaceAll spacesRegex s)"
  using noTag_filter [of "replaceAll spacesRegex s"] noTag_filter [of s]
  by (simp add: filter_angle_spaces)

lemma noTag_subseq: "subseq t s \<Longrightarrow> noTag s \<Longrightarrow> noTag t"
proof (induction rule: list_emb.induct)
  case (list_emb_Nil ys)
  then show ?case by simp
next
  case (list_emb_Cons xs ys y)
  then show ?case by simp
next
  case (list_emb_Cons2 x y xs ys)
  then show ?case using subseq_set [of xs ys] by auto
qed

lemma subseq_trim: "subseq (trim s) s"
proof -
  obtain a b where "s = a @ trim s @ b" using trim_parts by blast
  moreover have "subseq (trim s) (a @ trim s @ b)"
    by (rule list_emb_append2) (rule list_emb_prefix, simp)
  ultimately show ?thesis by simp
qed

lemma entities_absent:
  "38 \<notin> set s \<Longrightarrow>
   replaceLit (u16 ''&amp;'') r1 s = s \<and> replaceLit (u16 ''&lt;'') r2 s = s \<and>
   replaceLit (u16 ''&gt;'') r3 s = s \<and> replaceLit (u16 ''&nbsp;'') r4 s = s \<and>
   replaceLit (u16 ''&apos;'') r5 s = s"
  using replaceLit_absent [of 38 s] by (simp add: u16_def)

lemma noTag_cleanText_html: "38 \<notin> set text \<Longrightarrow> noTag (cleanText_html text)"
proof -
  assume a: "38 \<notin> set text"
  let ?s = "replaceAll tagRegex text"
  have "subseq ?s text" by (rule subseq_replaceAll [OF shrinks_tagRegex])
  with a have n: "38 \<notin> set ?s" using subseq_set by blast
  have "noTag (replaceAll spacesRegex ?s)"
    by (rule noTag_spaces) (rule noTag_replaceAll_tagRegex)
  then have "noTag (trim (replaceAll spacesRegex ?s))"
    by (rule noTag_subseq [OF subseq_trim])
  then show ?thesis by (simp add: cleanText_html_def entities_absent [OF n])
qed

lemma noTag_cleanText_md: "38 \<notin> set text \<Longrightarrow> noTag (cleanText_md text)"
proof -
  assume a: "38 \<notin> set text"
  let ?s1 = "replaceAll tagRegex text"
  let ?s2 = "replaceAll (mdLinkRegex (\<lambda>t u rest. Some (t, rest))) ?s1"
  let ?s3 = "replaceAll boldRegex ?s2"
  let ?s4 = "replaceAll emojiRegex ?s3"
  have 1: "subseq ?s1 text" by (rule subseq_replaceAll [OF shrinks_tagRegex])
  have 2: "subseq ?s2 ?s1" by (rule subseq_replaceAll [OF shrinks_md(1)])
  have 3: "subseq ?s3 ?s2" by (rule subseq_replaceAll [OF shrinks_md(2)])
  have 4: "subseq ?s4 ?s3" by (rule subseq_replaceAll [OF shrinks_md(3)])
  from a 1 2 3 have n: "38 \<notin> set ?s3" using subseq_set by blast
  have "noTag ?s1" by (rule noTag_replaceAll_tagRegex)
  then have "noTag ?s2" by (rule noTag_subseq [OF 2])
  then have "noTag ?s3" by (rule noTag_subseq [OF 3])
  then have "noTag ?s4" by (rule noTag_subseq [OF 4])
  then have "noTag (replaceAll spacesRegex ?s4)" by (rule noTag_spaces)
  then have "noTag (trim (replaceAll spacesRegex ?s4))"
    by (rule noTag_subseq [OF subseq_trim])
  then show ?thesis by (simp add: cleanText_md_def entities_absent [OF n])
qed

lemma lit_prefix: "lit p k s = (if prefix p s then k (drop (length p) s) else None)"
  by (induction p k s rule: lit.induct) auto

lemma star_until:
  assumes "\<And>c cs. P c \<Longrightarrow> k (c # cs) = None"
  shows "star P k s = k (dropWhile P s)"
proof (induction s)
  case Nil
  then show ?case by simp
next
  case (Cons c cs)
  then show ?case using assms [of c cs] by (auto split: option.splits)
qed

lemma plus1_until:
  assumes "\<And>c cs. P c \<Longrightarrow> k (c # cs) = None"
  shows "plus1 P k s = (if takeWhile P s \<noteq> [] then k (dropWhile P s) else None)"
  by (cases s) (simp_all add: star_until [of P k, OF assms])

lemma replaceAll_Nil: "replaceAll m [] = (case m [] of Some (r, rest) \<Rightarrow> r | None \<Rightarrow> [])"
  by (subst replaceAll.simps) (simp split: option.splits)

lemma replaceAll_Cons:
  "replaceAll m (c # cs) =
     (case m (c # cs) of
        Some (r, rest) \<Rightarrow>
          if length rest < Suc (length cs) then r @ replaceAll m rest
          else r @ c # replaceAll m cs
      | None \<Rightarrow> c # replaceAll m cs)"
  by (subst replaceAll.simps) (simp split: option.splits)

lemma between_dropWhile: "between a (dropWhile P a) = takeWhile P a"
proof -
  have "length a = length (takeWhile P a) + length (dropWhile P a)"
    by (metis length_append takeWhile_dropWhile_id)
  moreover have "take (length (takeWhile P a)) a = takeWhile P a"
    by (metis append_eq_conv_conj takeWhile_dropWhile_id)
  ultimately show ?thesis by (simp add: between_def)
qed

lemma prefix_takeWhile: "prefix (takeWhile P a @ z) a = prefix z (dropWhile P a)"
  using same_prefix_prefix [of "takeWhile P a" z "dropWhile P a"] by simp

lemma drop_takeWhile: "drop (length (takeWhile P a) + n) a = drop n (dropWhile P a)"
proof -
  have "drop (length (takeWhile P a) + n) (takeWhile P a @ dropWhile P a) =
      drop n (dropWhile P a)" by (simp only: drop_append) simp
  then show ?thesis by simp
qed

lemma tagRegex_eq:
  "tagRegex s =
     (case s of [] \<Rightarrow> None
      | c # cs \<Rightarrow> if c = 60 \<and> 62 \<in> set cs then Some ([], tl (dropWhile (\<lambda>x. x \<noteq> 62) cs))
                  else None)"
proof (cases s)
  case Nil
  then show ?thesis by (simp add: tagRegex_def u16_def)
next
  case (Cons c cs)
  let ?k = "lit (u16 ''>'') (\<lambda>rest. Some ([] :: jsstring, rest))"
  have n: "noneOf ''>'' = (\<lambda>x. x \<noteq> 62)" by (auto simp: noneOf_def u16_def)
  have "star (\<lambda>x. x \<noteq> 62) ?k cs = ?k (dropWhile (\<lambda>x. x \<noteq> 62) cs)"
    by (rule star_until) (simp add: u16_def)
  moreover have "?k (dropWhile (\<lambda>x. x \<noteq> 62) cs) =
      (if 62 \<in> set cs then Some ([], tl (dropWhile (\<lambda>x. x \<noteq> 62) cs)) else None)"
  proof (cases "dropWhile (\<lambda>x. x \<noteq> 62) cs")
    case Nil
    then have "62 \<notin> set cs" by (auto simp: dropWhile_eq_Nil_conv)
    then show ?thesis unfolding Nil by (simp add: u16_def)
  next
    case (Cons d ds)
    then have "d = 62" using hd_dropWhile [of "\<lambda>x. x \<noteq> 62" cs] by auto
    moreover have "62 \<in> set cs"
    proof -
      have "62 \<in> set (dropWhile (\<lambda>x. x \<noteq> 62) cs)" unfolding Cons using \<open>d = 62\<close> by simp
      then show ?thesis by (rule set_dropWhileD)
    qed
    ultimately show ?thesis using Cons by (simp add: u16_def)
  qed
  ultimately show ?thesis using Cons by (simp add: tagRegex_def n) (simp add: u16_def)
qed

lemma replaceAll_tagRegex: "replaceAll tagRegex s = dropTags s"
proof (induction s rule: dropTags.induct)
  case 1
  show ?case by (simp add: replaceAll_Nil tagRegex_eq dropTags.simps)
next
  case (2 c cs)
  have "length (tl (dropWhile (\<lambda>x. x \<noteq> 62) cs)) < Suc (length cs)"
    using length_dropWhile_le [of "\<lambda>x. x \<noteq> 62" cs] by simp
  with 2 show ?case by (simp add: replaceAll_Cons tagRegex_eq dropTags.simps)
qed

lemma replaceLit_eq: "p \<noteq> [] \<Longrightarrow> replaceLit p r s = replaceEvery p r s"
proof (induction p r s rule: replaceEvery.induct)
  case (1 p r)
  then show ?case
    by (cases p) (simp_all add: replaceLit_def replaceAll_Nil replaceEvery.simps)
next
  case (2 p r c cs)
  then show ?case
    by (simp add: replaceLit_def replaceAll_Cons lit_prefix replaceEvery.simps)
qed

lemma emojiRegex_eq:
  "emojiRegex s =
     (if prefix passport s then Some ([], drop (length passport) s)
      else if prefix us_flag s then Some ([], drop (length us_flag) s) else None)"
  by (simp add: emojiRegex_def alt_def lit_prefix)

lemma replaceAll_emojiRegex: "replaceAll emojiRegex s = dropGlyphs s"
proof (induction s rule: dropGlyphs.induct)
  case 1
  show ?case by (simp add: replaceAll_Nil emojiRegex_eq dropGlyphs.simps passport_def us_flag_def)
next
  case (2 c cs)
  have "length (drop (length passport) (c # cs)) < Suc (length cs)"
    and "length (drop (length us_flag) (c # cs)) < Suc (length cs)"
    by (simp_all add: passport_def us_flag_def)
  with 2 show ?case
    by (simp add: replaceAll_Cons emojiRegex_eq dropGlyphs.simps)
qed

lemma replaceAll_spacesRegex: "replaceAll spacesRegex s = collapse s"
proof (induction s rule: collapse.induct)
  case 1
  show ?case by (simp add: replaceAll_Nil spacesRegex_def collapse.simps)
next
  case (2 c cs)
  have s: "star isSpace (\<lambda>rest. Some (u16 '' '', rest)) cs = Some (u16 '' '', dropWhile isSpace cs)"
    by (induction cs) auto
  have "length (dropWhile isSpace cs) < Suc (length cs)"
    using length_dropWhile_le [of isSpace cs] by simp
  with 2 show ?case
    by (simp add: replaceAll_Cons spacesRegex_def s collapse.simps) (simp add: u16_def)
qed

lemma boldRegex_eq: "boldRegex s = boldAt s"
proof -
  have n: "noneOf ''*'' = (\<lambda>x. x \<noteq> 42)" by (auto simp: noneOf_def u16_def)
  define a where "a = drop (length (u16 ''**'')) s"
  define t where "t = takeWhile (\<lambda>x. x \<noteq> 42) a"
  define b where "b = dropWhile (\<lambda>x. x \<noteq> 42) a"
  have a2: "a = drop 2 s" by (simp add: a_def u16_def numeral_2_eq_2)
  have bt: "between a b = t" by (simp add: b_def t_def between_dropWhile)
  have 1: "boldRegex s =
      (if prefix (u16 ''**'') s
       then plus1 (\<lambda>x. x \<noteq> 42)
         (\<lambda>b. lit (u16 ''**'') (\<lambda>rest. Some (between a b, rest)) b) a
       else None)"
    unfolding boldRegex_def n a_def by (rule lit_prefix)
  have 2: "plus1 (\<lambda>x. x \<noteq> 42)
        (\<lambda>b. lit (u16 ''**'') (\<lambda>rest. Some (between a b, rest)) b) a =
      (if t \<noteq> [] then lit (u16 ''**'') (\<lambda>rest. Some (between a b, rest)) b else None)"
    unfolding t_def b_def by (rule plus1_until) (simp add: u16_def)
  have 3: "lit (u16 ''**'') (\<lambda>rest. Some (between a b, rest)) b =
      (if prefix (u16 ''**'') b then Some (t, drop 2 b) else None)"
    unfolding bt by (subst lit_prefix) (simp add: u16_def numeral_2_eq_2)
  have l: "boldRegex s =
      (if prefix (u16 ''**'') s \<and> t \<noteq> [] \<and> prefix (u16 ''**'') b
       then Some (t, drop 2 b) else None)"
    unfolding 1 2 3 by simp
  have pre: "prefix (u16 ''**'' @ t @ u16 ''**'') s =
      (prefix (u16 ''**'') s \<and> prefix (u16 ''**'') b)"
  proof (cases "prefix (u16 ''**'') s")
    case True
    then have s: "s = u16 ''**'' @ a" by (auto simp: a_def prefix_def)
    have "prefix (u16 ''**'' @ t @ u16 ''**'') (u16 ''**'' @ a) = prefix (t @ u16 ''**'') a"
      by simp
    also have "\<dots> = prefix (u16 ''**'') b" unfolding t_def b_def by (rule prefix_takeWhile)
    finally show ?thesis using True s by simp
  next
    case False
    then show ?thesis by (auto simp: prefix_def)
  qed
  have d: "drop (length t + 4) s = drop 2 b"
  proof -
    have e: "length t + 2 + 2 = length t + 4" by simp
    have "drop 2 b = drop (length (takeWhile (\<lambda>x. x \<noteq> 42) a) + 2) a"
      unfolding b_def by (rule drop_takeWhile [symmetric])
    also have "\<dots> = drop (length t + 2) (drop 2 s)" unfolding t_def a2 ..
    also have "\<dots> = drop (length t + 4) s" unfolding drop_drop e ..
    finally show ?thesis by simp
  qed
  have ta: "takeWhile (\<lambda>x. x \<noteq> 42) (drop 2 s) = t" unfolding t_def a2 ..
  have "boldAt s =
      (if t \<noteq> [] \<and> prefix (u16 ''**'' @ t @ u16 ''**'') s
       then Some (t, drop (length t + 4) s) else None)"
    unfolding boldAt_def Let_def ta ..
  then show ?thesis unfolding l pre d by auto
qed

lemma replaceAll_boldRegex: "replaceAll boldRegex s = boldToText s"
proof (induction s rule: boldToText.induct)
  case 1
  show ?case
    by (simp add: replaceAll_Nil boldRegex_eq boldToText.simps) (simp add: boldAt_def)
next
  case (2 c cs)
  have len: "length rest < Suc (length cs)" if "boldAt (c # cs) = Some (t, rest)" for t rest
    using that by (auto simp: boldAt_def Let_def split: if_splits)
  show ?case
  proof (cases "boldAt (c # cs)")
    case None
    with 2 show ?thesis by (simp add: replaceAll_Cons boldRegex_eq boldToText.simps)
  next
    case (Some p)
    obtain t rest where p: "p = (t, rest)" by (cases p)
    from Some p len have "length rest < Suc (length cs)" by simp
    with 2 Some p show ?thesis by (simp add: replaceAll_Cons boldRegex_eq boldToText.simps)
  qed
qed

lemma mdLinkRegex_eq: "mdLinkRegex (\<lambda>t u rest. Some (t, rest)) s = linkAt s"
proof -
  have n1: "noneOf '']'' = (\<lambda>x. x \<noteq> 93)" by (auto simp: noneOf_def u16_def)
  have n2: "noneOf '')'' = (\<lambda>x. x \<noteq> 41)" by (auto simp: noneOf_def u16_def)
  define a where "a = drop (length (u16 ''['')) s"
  define t where "t = takeWhile (\<lambda>x. x \<noteq> 93) a"
  define b where "b = dropWhile (\<lambda>x. x \<noteq> 93) a"
  define c where "c = drop (length (u16 '']('')) b"
  define u where "u = takeWhile (\<lambda>x. x \<noteq> 41) c"
  define d where "d = dropWhile (\<lambda>x. x \<noteq> 41) c"
  have a1: "a = drop 1 s" by (simp add: a_def u16_def)
  have c2: "c = drop 2 b" by (simp add: c_def u16_def numeral_2_eq_2)
  have bt: "between a b = t" by (simp add: b_def t_def between_dropWhile)
  have 1: "mdLinkRegex (\<lambda>t u rest. Some (t, rest)) s =
      (if prefix (u16 ''['') s
       then plus1 (\<lambda>x. x \<noteq> 93)
        (\<lambda>b. lit (u16 '']('')
           (\<lambda>c. plus1 (\<lambda>x. x \<noteq> 41)
              (\<lambda>d. lit (u16 '')'') (\<lambda>rest. Some (between a b, rest)) d) c) b) a
       else None)"
    unfolding mdLinkRegex_def n1 n2 a_def by (rule lit_prefix)
  have 2: "plus1 (\<lambda>x. x \<noteq> 93)
        (\<lambda>b. lit (u16 '']('')
           (\<lambda>c. plus1 (\<lambda>x. x \<noteq> 41)
              (\<lambda>d. lit (u16 '')'') (\<lambda>rest. Some (between a b, rest)) d) c) b) a =
      (if t \<noteq> [] then lit (u16 '']('')
           (\<lambda>c. plus1 (\<lambda>x. x \<noteq> 41)
              (\<lambda>d. lit (u16 '')'') (\<lambda>rest. Some (between a b, rest)) d) c) b else None)"
    unfolding t_def b_def by (rule plus1_until) (simp add: u16_def)
  have 3: "lit (u16 '']('')
           (\<lambda>c. plus1 (\<lambda>x. x \<noteq> 41)
              (\<lambda>d. lit (u16 '')'') (\<lambda>rest. Some (between a b, rest)) d) c) b =
      (if prefix (u16 '']('') b
       then plus1 (\<lambda>x. x \<noteq> 41) (\<lambda>d. lit (u16 '')'') (\<lambda>rest. Some (t, rest)) d) c
       else None)"
    unfolding bt c_def by (rule lit_prefix)
  have 4: "plus1 (\<lambda>x. x \<noteq> 41) (\<lambda>d. lit (u16 '')'') (\<lambda>rest. Some (t, rest)) d) c =
      (if u \<noteq> [] then lit (u16 '')'') (\<lambda>rest. Some (t, rest)) d else None)"
    unfolding u_def d_def by (rule plus1_until) (simp add: u16_def)
  have 5: "lit (u16 '')'') (\<lambda>rest. Some (t, rest)) d =
      (if prefix (u16 '')'') d then Some (t, drop 1 d) else None)"
    by (subst lit_prefix) (simp add: u16_def)
  have l: "mdLinkRegex (\<lambda>t u rest. Some (t, rest)) s =
      (if prefix (u16 ''['') s \<and> t \<noteq> [] \<and> prefix (u16 '']('') b \<and> u \<noteq> [] \<and> prefix (u16 '')'') d
       then Some (t, drop 1 d) else None)"
    unfolding 1 2 3 4 5 by simp
  have c': "c = drop (length t + 3) s"
  proof -
    have e: "length t + 2 + 1 = length t + 3" by simp
    have "c = drop 2 (dropWhile (\<lambda>x. x \<noteq> 93) a)" unfolding c2 b_def ..
    also have "\<dots> = drop (length (takeWhile (\<lambda>x. x \<noteq> 93) a) + 2) a"
      by (rule drop_takeWhile [symmetric])
    also have "\<dots> = drop (length t + 2) (drop 1 s)" unfolding t_def a1 ..
    also have "\<dots> = drop (length t + 3) s" unfolding drop_drop e ..
    finally show ?thesis .
  qed
  have pre: "prefix (u16 ''['' @ t @ u16 '']('' @ u @ u16 '')'') s =
      (prefix (u16 ''['') s \<and> prefix (u16 '']('') b \<and> prefix (u16 '')'') d)"
  proof (cases "prefix (u16 ''['') s")
    case True
    then have s: "s = u16 ''['' @ a" by (auto simp: a_def prefix_def)
    show ?thesis
    proof (cases "prefix (u16 '']('') b")
      case b: True
      then have bc: "b = u16 '']('' @ c" by (auto simp: c_def prefix_def)
      have "prefix (u16 ''['' @ t @ u16 '']('' @ u @ u16 '')'') (u16 ''['' @ a) =
          prefix (t @ u16 '']('' @ u @ u16 '')'') a" by simp
      also have "\<dots> = prefix (u16 '']('' @ u @ u16 '')'') b"
        unfolding t_def b_def by (rule prefix_takeWhile)
      also have "\<dots> = prefix (u @ u16 '')'') c" by (subst bc) simp
      also have "\<dots> = prefix (u16 '')'') d" unfolding u_def d_def by (rule prefix_takeWhile)
      finally show ?thesis using True b s by simp
    next
      case b: False
      have "\<not> prefix (t @ u16 '']('' @ u @ u16 '')'') a"
      proof
        assume "prefix (t @ u16 '']('' @ u @ u16 '')'') a"
        then have "prefix (u16 '']('' @ u @ u16 '')'') b"
          unfolding t_def b_def by (simp only: prefix_takeWhile)
        then have "prefix (u16 '']('') b" by (rule append_prefixD)
        with b show False by simp
      qed
      then have "\<not> prefix (u16 ''['' @ t @ u16 '']('' @ u @ u16 '')'') (u16 ''['' @ a)" by simp
      with b s show ?thesis by simp
    qed
  next
    case False
    then show ?thesis by (auto simp: prefix_def)
  qed
  have dr: "drop (length t + length u + 4) s = drop 1 d"
  proof -
    have "drop (length u + 1) c = drop 1 d"
      unfolding u_def d_def by (rule drop_takeWhile)
    then have "drop (length u + 1) (drop (length t + 3) s) = drop 1 d" by (simp only: c')
    moreover have "length u + 1 + (length t + 3) = length t + length u + 4" by simp
    ultimately show ?thesis by (simp only: drop_drop)
  qed
  have ta: "takeWhile (\<lambda>x. x \<noteq> 93) (drop 1 s) = t" unfolding t_def a1 ..
  have uc: "takeWhile (\<lambda>x. x \<noteq> 41) (drop (length t + 3) s) = u" unfolding u_def c' ..
  have "linkAt s =
      (if t \<noteq> [] \<and> u \<noteq> [] \<and> prefix (u16 ''['' @ t @ u16 '']('' @ u @ u16 '')'') s
       then Some (t, drop (length t + length u + 4) s) else None)"
    unfolding linkAt_def Let_def ta uc ..
  then show ?thesis unfolding l pre dr by auto
qed

lemma replaceAll_mdLinkRegex:
  "replaceAll (mdLinkRegex (\<lambda>t u rest. Some (t, rest))) s = linksToText s"
proof (induction s rule: linksToText.induct)
  case 1
  show ?case
    by (simp add: replaceAll_Nil mdLinkRegex_eq linksToText.simps) (simp add: linkAt_def)
next
  case (2 c cs)
  have len: "length rest < Suc (length cs)" if "linkAt (c # cs) = Some (t, rest)" for t rest
    using that by (auto simp: linkAt_def Let_def split: if_splits)
  show ?case
  proof (cases "linkAt (c # cs)")
    case None
    with 2 show ?thesis by (simp add: replaceAll_Cons mdLinkRegex_eq linksToText.simps)
  next
    case (Some p)
    obtain t rest where p: "p = (t, rest)" by (cases p)
    from Some p len have "length rest < Suc (length cs)" by simp
    with 2 Some p show ?thesis by (simp add: replaceAll_Cons mdLinkRegex_eq linksToText.simps)
  qed
qed

lemma cleanText_html_steps:
  "cleanText_html text = trim (collapse (decode entities_html (dropTags text)))"
  by (simp add: cleanText_html_def decode_def entities_html_def replaceAll_tagRegex
      replaceAll_spacesRegex replaceLit_eq u16_def)

lemma cleanText_md_steps:
  "cleanText_md text =
     trim (collapse (dropGlyphs (decode entities_md
       (boldToText (linksToText (dropTags text))))))"
  by (simp add: cleanText_md_def decode_def entities_md_def entities_html_def
      replaceAll_tagRegex replaceAll_spacesRegex replaceAll_emojiRegex replaceAll_boldRegex
      replaceAll_mdLinkRegex replaceLit_eq u16_def)

text \<open>
  C4, as the code has it. For every input \<open>cleanText\<close> is these steps, in this order. The
  version for the HTML table: every tag is stripped; every occurrence of \<open>&amp;\<close>, then of
  \<open>&lt;\<close>, then of \<open>&gt;\<close>, then of \<open>&nbsp;\<close> is decoded, each entity on the result of the one
  before; every run of white space is collapsed to one space; the ends are trimmed. The
  version for the markdown table: every tag is stripped; every markdown link and then
  every bold text is turned into its text; the same four entities and then \<open>&apos;\<close> are
  decoded at every occurrence; every occurrence of the two glyphs is removed; white
  space is collapsed and the ends are trimmed. So the version for the HTML table does
  not decode \<open>&apos;\<close>, removes no glyph and leaves markdown as it is. In both versions
  the result has its white space in normal form, and for an input without \<open>&\<close> no tag is
  left in it. Both map "A&amp;B" to "A&B", "a   b\n c" to "a b c" and
  "R&amp;D &amp; QA" to "R&D & QA".
\<close>

theorem cleanText_spec:
  "cleanText_html text = trim (collapse (decode entities_html (dropTags text))) \<and>
   cleanText_md text =
     trim (collapse (dropGlyphs (decode entities_md
       (boldToText (linksToText (dropTags text)))))) \<and>
   wsNormal (cleanText_html text) \<and> wsNormal (cleanText_md text) \<and>
   (38 \<notin> set text \<longrightarrow> noTag (cleanText_html text) \<and> noTag (cleanText_md text)) \<and>
   cleanText_html (u16 ''A&amp;B'') = u16 ''A&B'' \<and>
   cleanText_md (u16 ''A&amp;B'') = u16 ''A&B'' \<and>
   cleanText_html (u16 ''a   b'' @ [10] @ u16 '' c'') = u16 ''a b c'' \<and>
   cleanText_md (u16 ''a   b'' @ [10] @ u16 '' c'') = u16 ''a b c'' \<and>
   cleanText_html twiceText = u16 ''R&D & QA'' \<and> cleanText_md twiceText = u16 ''R&D & QA'' \<and>
   cleanText_md entityText = u16 ''R&D <i> it'' @ [39] @ u16 ''s'' \<and>
   cleanText_html entityText = u16 ''R&D <i> it&apos;s '' @ passport @ us_flag \<and>
   cleanText_md mdText = u16 ''Data Engineer'' \<and> cleanText_html mdText = mdText"
proof -
  note steps = cleanText_html_steps [of "text"] cleanText_md_steps [of "text"]
  note ws = wsNormal_cleanText [of "text"]
  note tags = noTag_cleanText_html [of "text"] noTag_cleanText_md [of "text"]
  have "38 \<notin> set text \<longrightarrow> noTag (cleanText_html text) \<and> noTag (cleanText_md text)"
    using tags by blast
  with steps ws cleanText_examples cleanText_twiceText cleanText_entityText cleanText_mdText
  show ?thesis by (intro conjI) (erule conjunct1 conjunct2 | assumption | blast)+
qed

text \<open>C4 on a text with a tag and runs of spaces.\<close>

theorem cleanText_spec_witness:
  "38 \<notin> set tagText \<and> cleanText_html tagText = u16 ''Software Engineer'' \<and>
   cleanText_md tagText = u16 ''Software Engineer'' \<and>
   wsNormal (u16 ''Software Engineer'') \<and> noTag (u16 ''Software Engineer'') \<and>
   trim (collapse (decode entities_html (dropTags tagText))) = u16 ''Software Engineer''"
proof -
  note t = cleanText_spec [of tagText]
  from t have s: "cleanText_html tagText = trim (collapse (decode entities_html (dropTags tagText)))"
    by (rule conjunct1)
  from t have w: "wsNormal (cleanText_html tagText)"
    by blast
  from t have n: "38 \<notin> set tagText \<longrightarrow> noTag (cleanText_html tagText)"
    by blast
  from w n cleanText_tagText have "38 \<notin> set tagText \<and> cleanText_html tagText = u16 ''Software Engineer'' \<and>
   cleanText_md tagText = u16 ''Software Engineer'' \<and>
   wsNormal (u16 ''Software Engineer'') \<and> noTag (u16 ''Software Engineer'')"
    by simp
  moreover from s cleanText_tagText
  have "trim (collapse (decode entities_html (dropTags tagText))) = u16 ''Software Engineer''"
    by simp
  ultimately show ?thesis by blast
qed

text \<open>
  C4 as the claim has it fails in the version for the HTML table: \<open>&apos;\<close> is not
  decoded and the glyphs stay.
\<close>

theorem cleanText_html_keeps_apos:
  "cleanText_html (u16 ''it&apos;s'') = u16 ''it&apos;s'' \<and>
   cleanText_html (u16 ''it&apos;s'') \<noteq> u16 ''it'' @ [39] @ u16 ''s'' \<and>
   cleanText_md (u16 ''it&apos;s'') = u16 ''it'' @ [39] @ u16 ''s'' \<and>
   cleanText_html passport = passport \<and> cleanText_html passport \<noteq> [] \<and>
   cleanText_md passport = []"
  by (simp add: eval)

end
